theory Spec2Isabelle
  imports Main "HOL-Library.Multiset"
begin

section \<open>JavaScript values, the network file and the ledger\<close>

text \<open>
  The values that reach the visitor and the fields of the network file are JavaScript
  values. Only three shapes occur in \<^verbatim>\<open>StatusChecker.js\<close>: \<^verbatim>\<open>undefined\<close> (an unset field,
  a missing argument), a string (a version, an address, a digest, the words
  \<^verbatim>\<open>'none'\<close> and \<^verbatim>\<open>'one'\<close>) and a number (\<^verbatim>\<open>matchingImplementations.length\<close>).
\<close>

datatype jsval = Undefined | Str string | Num nat

text \<open>\<^verbatim>\<open>!!x\<close>: \<^verbatim>\<open>undefined\<close>, the empty string and \<^verbatim>\<open>0\<close> are falsy.\<close>

fun truthy :: "jsval \<Rightarrow> bool" where
  "truthy Undefined = False"
| "truthy (Str s) = (s \<noteq> [])"
| "truthy (Num n) = (n \<noteq> 0)"

text \<open>\<^verbatim>\<open>a || b\<close>\<close>

definition js_or :: "jsval \<Rightarrow> jsval \<Rightarrow> jsval" where
  "js_or a b = (if truthy a then a else b)"

text \<open>Decimal digits of a number, for the template literal \<^verbatim>\<open>`${x}`\<close>.\<close>

fun show_nat :: "nat \<Rightarrow> string" where
  "show_nat n =
     (if n < 10 then [char_of (48 + n)]
      else show_nat (n div 10) @ [char_of (48 + n mod 10)])"

declare show_nat.simps [simp del]

fun toString :: "jsval \<Rightarrow> string" where
  "toString Undefined = ''undefined''"
| "toString (Str s) = s"
| "toString (Num n) = show_nat n"

definition ZERO_ADDRESS :: string where
  "ZERO_ADDRESS = ''0x0000000000000000000000000000000000000000''"

text \<open>
  An error object. \<^verbatim>\<open>Error(message, options)\<close> installs a cause only when \<^verbatim>\<open>options\<close>
  has a property \<^verbatim>\<open>cause\<close> (ECMAScript InstallErrorCause); an engine older than that
  ignores the second argument. In \<^verbatim>\<open>project()\<close> the second argument is the caught error
  itself, so the new error's cause is whatever \<^verbatim>\<open>cause\<close> property the caught error has.
\<close>

datatype jsError = JsError (message: string) (cause: "jsError option")

definition Error :: "string \<Rightarrow> jsError \<Rightarrow> jsError" where
  "Error msg options = JsError msg (cause options)"

text \<open>
  Reading a property of \<^verbatim>\<open>undefined\<close> (\<^verbatim>\<open>this._project.package\<close> before any
  \<^verbatim>\<open>project()\<close>, \<^verbatim>\<open>this.networkFile.contract(alias).address\<close> for an absent alias).
\<close>

definition TypeError :: jsError where
  "TypeError = JsError ''TypeError: Cannot read property of undefined'' None"

subsection \<open>The network file\<close>

text \<open>
  Modelled from the spec: the class of \<^verbatim>\<open>this.networkFile\<close> (ZosNetworkFile) is not among
  the sources. The spec's Local Descriptor has the scalar fields, \<open>contracts\<close> as a
  mapping from alias to an entry with an address and a content hash, and \<open>proxies\<close> as an
  ordered sequence of entries with alias, address and implementation. The mapping is an
  association list read through \<^const>\<open>map_of\<close>; its keys are enumerated without
  repetition, as the keys of an object are.
\<close>

record contractEntry =
  c_address :: string
  c_bodyBytecodeHash :: string

record proxyEntry =
  p_alias :: string
  p_address :: string
  p_implementation :: string

record networkFile =
  isLib :: bool
  version :: jsval
  appAddress :: jsval
  packageAddress :: jsval
  providerAddress :: jsval
  stdlibAddress :: jsval
  contracts :: "(string \<times> contractEntry) list"
  proxies :: "proxyEntry list"

definition hasContract :: "networkFile \<Rightarrow> string \<Rightarrow> bool" where
  "hasContract nf a = (map_of (contracts nf) a \<noteq> None)"

definition contract :: "networkFile \<Rightarrow> string \<Rightarrow> contractEntry option" where
  "contract nf a = map_of (contracts nf) a"

definition contractAliases :: "networkFile \<Rightarrow> string list" where
  "contractAliases nf = remdups (map fst (contracts nf))"

definition proxiesList :: "networkFile \<Rightarrow> proxyEntry list" where
  "proxiesList nf = proxies nf"

subsection \<open>The ledger\<close>

text \<open>
  The events the checker scans: the arguments of an \<^verbatim>\<open>ImplementationChanged\<close> event of
  the directory and of a \<^verbatim>\<open>ProxyCreated\<close> event of the factory.
\<close>

record implementationChanged =
  args_contractName :: string
  args_implementation :: string

record proxyCreated =
  args_proxy :: string

text \<open>
  Modelled from the spec: the classes \<^verbatim>\<open>LibProject\<close> and \<^verbatim>\<open>AppProject\<close> and the class
  \<^verbatim>\<open>EventsFilter\<close> are not among the sources. The project handle that
  \<^verbatim>\<open>LibProject.fetch\<close> or \<^verbatim>\<open>AppProject.fetch\<close> returns is the spec's Deployment Reader,
  taken as the answers it gives: its version, the address of its package, the address
  of the current directory and the \<^verbatim>\<open>ImplementationChanged\<close> events of that directory in
  the order of the log, the address of the current stdlib, the \<^verbatim>\<open>ProxyCreated\<close> events
  of its factory, and the current implementation of a proxy. The reads through the
  handle are taken to succeed, and the ledger does not change during a run.
  \<open>resolution\<close> decides the order in which the concurrent \<^verbatim>\<open>getProxyImplementation\<close>
  reads of \<^verbatim>\<open>_fetchOnChainProxies\<close> resolve.
\<close>

record project =
  project_version :: string
  package_address :: string
  directory_address :: string
  directory_events :: "implementationChanged list"
  currentStdlib :: string
  factory_events :: "proxyCreated list"
  getProxyImplementation :: "string \<Rightarrow> string"
  resolution :: "nat list"

text \<open>
  What lies outside the handle: the two fetches, each of which returns a handle or
  throws, and \<^verbatim>\<open>bytecodeDigest(web3.eth.getCode(address))\<close>, the digest of the code at an
  address.
\<close>

record ledger =
  LibProject_fetch :: "jsval \<Rightarrow> jsval \<Rightarrow> jsError + project"
  AppProject_fetch :: "jsval \<Rightarrow> jsError + project"
  bytecodeDigest_getCode :: "string \<Rightarrow> string"

datatype ledgerRead =
    FetchLibProject jsval jsval
  | FetchAppProject jsval
  | GetProjectPackage
  | GetCurrentDirectory
  | CurrentStdlib
  | EventsFilterCall string
  | GetProxyImplementation string
  | GetCode string

section \<open>The visitor and the checker\<close>

text \<open>
  A call \<^verbatim>\<open>this.visitor.method(expected, observed, meta)\<close>. A missing argument is
  \<^verbatim>\<open>undefined\<close>, a missing \<open>meta\<close> has no field.
\<close>

record hook =
  h_method :: string
  h_expected :: jsval
  h_observed :: jsval
  h_meta :: "(string \<times> string) list"

text \<open>
  The classes of the visitor (StatusFetcher, StatusComparator) are not among the sources.
  What a call does to the network file the checker holds is a parameter: a function from
  the call and the network file to the network file. A visitor that only reports is
  \<open>\<lambda>h nf. nf\<close>. A call of the visitor is taken to return.
\<close>

type_synonym visitor = "hook \<Rightarrow> networkFile \<Rightarrow> networkFile"

record checker =
  networkFile :: networkFile
  project_cache :: "project option"
  calls :: "hook list"
  reads :: "ledgerRead list"

type_synonym 'a action = "checker \<Rightarrow> (jsError + 'a) \<times> checker"

definition visit :: "visitor \<Rightarrow> hook \<Rightarrow> checker \<Rightarrow> checker" where
  "visit v h c = c\<lparr>networkFile := v h (networkFile c), calls := calls c @ [h]\<rparr>"

definition readLedger :: "ledgerRead \<Rightarrow> checker \<Rightarrow> checker" where
  "readLedger r c = c\<lparr>reads := reads c @ [r]\<rparr>"

text \<open>Sequencing: an exception of the first part skips the second.\<close>

definition andThen :: "'a action \<Rightarrow> ('a \<Rightarrow> 'b action) \<Rightarrow> 'b action" where
  "andThen m f c = (case m c of (Inl e, c') \<Rightarrow> (Inl e, c') | (Inr x, c') \<Rightarrow> f x c')"

text \<open>\<^verbatim>\<open>xs.forEach(f)\<close>, where \<open>f\<close> may throw.\<close>

fun forEach :: "'a list \<Rightarrow> ('a \<Rightarrow> unit action) \<Rightarrow> unit action" where
  "forEach [] f c = (Inr (), c)"
| "forEach (x # xs) f c =
     (case f x c of (Inl e, c') \<Rightarrow> (Inl e, c') | (Inr u, c') \<Rightarrow> forEach xs f c')"

section \<open>Reconstructing the registered implementations\<close>

text \<open>
  \<^verbatim>\<open>xs.lastIndexOf(x)\<close>: the greatest index at which \<open>x\<close> stands, \<open>-1\<close> when it stands
  nowhere.
\<close>

fun lastIndexOf :: "'a list \<Rightarrow> 'a \<Rightarrow> int" where
  "lastIndexOf [] x = - 1"
| "lastIndexOf (y # ys) x =
     (let r = lastIndexOf ys x
      in if 0 \<le> r then r + 1 else if y = x then 0 else - 1)"

text \<open>\<^verbatim>\<open>xs.filter((x, index) => f(x, index))\<close>\<close>

definition filter_index :: "('a \<Rightarrow> int \<Rightarrow> bool) \<Rightarrow> 'a list \<Rightarrow> 'a list" where
  "filter_index f xs =
     map fst (filter (\<lambda>(x, i). f x (int i)) (zip xs [0..<length xs]))"

record implementationInfo =
  i_alias :: string
  i_address :: string

text \<open>Lines 168 to 172 of \<^verbatim>\<open>_fetchOnChainImplementations\<close>, on the events scanned.\<close>

definition implementationsOf :: "implementationChanged list \<Rightarrow> implementationInfo list" where
  "implementationsOf allEvents =
     (let contractsAlias = map args_contractName allEvents
      in map (\<lambda>event. \<lparr>i_alias = args_contractName event, i_address = args_implementation event\<rparr>)
           (filter (\<lambda>event. args_implementation event \<noteq> ZERO_ADDRESS)
              (filter_index
                 (\<lambda>event index. lastIndexOf contractsAlias (args_contractName event) = index)
                 allEvents)))"

definition fetchOnChainImplementations :: "implementationInfo list action" where
  "fetchOnChainImplementations c =
     (case project_cache c of
        None \<Rightarrow> (Inl TypeError, c)
      | Some p \<Rightarrow>
          (Inr (implementationsOf (directory_events p)),
           readLedger (EventsFilterCall ''ImplementationChanged'')
             (readLedger GetCurrentDirectory c)))"

section \<open>The project handle\<close>

text \<open>
  \<^verbatim>\<open>project()\<close>: the handle is fetched when \<^verbatim>\<open>this._project\<close> is unset, and kept. A
  failed fetch is thrown again as a new error whose message names
  \<^verbatim>\<open>this.networkFile.appAddress\<close>. \<^verbatim>\<open>txParams\<close> is passed on to the fetch and read nowhere
  else; the model leaves it out.
\<close>

definition project :: "ledger \<Rightarrow> project action" where
  "project L c =
     (case project_cache c of
        Some p \<Rightarrow> (Inr p, c)
      | None \<Rightarrow>
          (let nf = networkFile c;
               (r, fetched) =
                 (if isLib nf
                  then (FetchLibProject (packageAddress nf) (version nf),
                        LibProject_fetch L (packageAddress nf) (version nf))
                  else (FetchAppProject (appAddress nf), AppProject_fetch L (appAddress nf)));
               c' = readLedger r c
           in case fetched of
                Inr p \<Rightarrow> (Inr p, c'\<lparr>project_cache := Some p\<rparr>)
              | Inl error \<Rightarrow>
                  (Inl (Error (''Cannot fetch project contract from address ''
                          @ toString (appAddress nf) @ ''.'') error), c')))"

section \<open>The scalar checks\<close>

definition checkVersion :: "visitor \<Rightarrow> ledger \<Rightarrow> unit action" where
  "checkVersion v L =
     andThen (project L) (\<lambda>p c.
       let observed = Str (project_version p);
           expected = version (networkFile c)
       in (Inr (),
           if observed \<noteq> expected
           then visit v \<lparr>h_method = ''onMismatchingVersion'', h_expected = expected,
                  h_observed = observed, h_meta = []\<rparr> c
           else c))"

definition checkPackage :: "visitor \<Rightarrow> unit action" where
  "checkPackage v c =
     (case project_cache c of
        None \<Rightarrow> (Inl TypeError, c)
      | Some p \<Rightarrow>
          (let observed = Str (package_address p);
               expected = packageAddress (networkFile c)
           in (Inr (),
               if observed \<noteq> expected
               then visit v \<lparr>h_method = ''onMismatchingPackage'', h_expected = expected,
                      h_observed = observed, h_meta = []\<rparr> c
               else c)))"

definition checkProvider :: "visitor \<Rightarrow> unit action" where
  "checkProvider v c =
     (case project_cache c of
        None \<Rightarrow> (Inl TypeError, c)
      | Some p \<Rightarrow>
          (let c' = readLedger GetCurrentDirectory c;
               observed = Str (directory_address p);
               expected = providerAddress (networkFile c')
           in (Inr (),
               if observed \<noteq> expected
               then visit v \<lparr>h_method = ''onMismatchingProvider'', h_expected = expected,
                      h_observed = observed, h_meta = []\<rparr> c'
               else c')))"

definition checkStdlib :: "visitor \<Rightarrow> ledger \<Rightarrow> unit action" where
  "checkStdlib v L =
     andThen (project L) (\<lambda>p c.
       let c' = readLedger CurrentStdlib c;
           observed = (if currentStdlib p = ZERO_ADDRESS then Str ''none''
                       else Str (currentStdlib p));
           expected = js_or (stdlibAddress (networkFile c')) (Str ''none'')
       in (Inr (),
           if observed \<noteq> expected
           then visit v \<lparr>h_method = ''onMismatchingStdlib'', h_expected = expected,
                  h_observed = observed, h_meta = []\<rparr> c'
           else c'))"

section \<open>The implementations\<close>

definition checkImplementationAddress :: "visitor \<Rightarrow> string \<Rightarrow> string \<Rightarrow> unit action" where
  "checkImplementationAddress v alias address c =
     (case contract (networkFile c) alias of
        None \<Rightarrow> (Inl TypeError, c)
      | Some entry \<Rightarrow>
          (let expected = c_address entry
           in (Inr (),
               if address \<noteq> expected
               then visit v \<lparr>h_method = ''onMismatchingContractAddress'',
                      h_expected = Str expected, h_observed = Str address,
                      h_meta = [(''alias'', alias), (''address'', address)]\<rparr> c
               else c)))"

definition checkImplementationBytecode ::
  "visitor \<Rightarrow> ledger \<Rightarrow> string \<Rightarrow> string \<Rightarrow> unit action" where
  "checkImplementationBytecode v L alias address c =
     (case contract (networkFile c) alias of
        None \<Rightarrow> (Inl TypeError, c)
      | Some entry \<Rightarrow>
          (let expected = c_bodyBytecodeHash entry;
               observed = bytecodeDigest_getCode L address;
               c' = readLedger (GetCode address) c
           in (Inr (),
               if observed \<noteq> expected
               then visit v \<lparr>h_method = ''onMismatchingContractBodyBytecode'',
                      h_expected = Str expected, h_observed = Str observed,
                      h_meta = [(''alias'', alias), (''address'', address),
                                (''bodyBytecodeHash'', observed)]\<rparr> c'
               else c')))"

definition checkRemoteImplementation ::
  "visitor \<Rightarrow> ledger \<Rightarrow> implementationInfo \<Rightarrow> unit action" where
  "checkRemoteImplementation v L info c =
     (let alias = i_alias info; address = i_address info
      in if hasContract (networkFile c) alias
         then andThen (checkImplementationAddress v alias address)
                (\<lambda>u. checkImplementationBytecode v L alias address) c
         else (Inr (),
               visit v \<lparr>h_method = ''onMissingRemoteContract'', h_expected = Str ''none'',
                 h_observed = Str ''one'',
                 h_meta = [(''alias'', alias), (''address'', address)]\<rparr> c))"

definition checkUnregisteredLocalImplementations ::
  "visitor \<Rightarrow> implementationInfo list \<Rightarrow> unit action" where
  "checkUnregisteredLocalImplementations v implementationsInfo c =
     (let foundAliases = map i_alias implementationsInfo
      in forEach
           (filter (\<lambda>alias. alias \<notin> set foundAliases) (contractAliases (networkFile c)))
           (\<lambda>alias c.
              case contract (networkFile c) alias of
                None \<Rightarrow> (Inl TypeError, c)
              | Some entry \<Rightarrow>
                  (Inr (),
                   visit v \<lparr>h_method = ''onUnregisteredLocalContract'',
                     h_expected = Str ''one'', h_observed = Str ''none'',
                     h_meta = [(''alias'', alias), (''address'', c_address entry)]\<rparr> c))
           c)"

definition checkImplementations :: "visitor \<Rightarrow> ledger \<Rightarrow> unit action" where
  "checkImplementations v L =
     andThen fetchOnChainImplementations (\<lambda>implementationsInfo.
     andThen (forEach implementationsInfo (checkRemoteImplementation v L)) (\<lambda>u.
     checkUnregisteredLocalImplementations v implementationsInfo))"

section \<open>The proxies\<close>

definition proxyMeta :: "string \<Rightarrow> string \<Rightarrow> string \<Rightarrow> (string \<times> string) list" where
  "proxyMeta alias address implementation =
     [(''alias'', alias), (''address'', address), (''implementation'', implementation)]"

definition checkProxyAlias ::
  "visitor \<Rightarrow> proxyEntry \<Rightarrow> string \<Rightarrow> string \<Rightarrow> string \<Rightarrow> checker \<Rightarrow> checker" where
  "checkProxyAlias v proxy alias address implementation c =
     (let expected = p_alias proxy
      in if alias \<noteq> expected
         then visit v \<lparr>h_method = ''onMismatchingProxyAlias'', h_expected = Str expected,
                h_observed = Str alias, h_meta = proxyMeta alias address implementation\<rparr> c
         else c)"

definition checkProxyImplementation ::
  "visitor \<Rightarrow> proxyEntry \<Rightarrow> string \<Rightarrow> string \<Rightarrow> string \<Rightarrow> checker \<Rightarrow> checker" where
  "checkProxyImplementation v proxy alias address implementation c =
     (let expected = p_implementation proxy
      in if implementation \<noteq> expected
         then visit v \<lparr>h_method = ''onMismatchingProxyImplementation'',
                h_expected = Str expected, h_observed = Str implementation,
                h_meta = proxyMeta alias address implementation\<rparr> c
         else c)"

text \<open>
  \<^verbatim>\<open>matchingProxy\<close> is the entry found before the first of the two checks; the second
  check reads the entry as it was found.
\<close>

definition checkRemoteProxy :: "visitor \<Rightarrow> proxyEntry \<Rightarrow> checker \<Rightarrow> checker" where
  "checkRemoteProxy v info c =
     (let alias = p_alias info; address = p_address info;
          implementation = p_implementation info
      in case find (\<lambda>proxy. p_address proxy = address) (proxiesList (networkFile c)) of
           Some matchingProxy \<Rightarrow>
             checkProxyImplementation v matchingProxy alias address implementation
               (checkProxyAlias v matchingProxy alias address implementation c)
         | None \<Rightarrow>
             visit v \<lparr>h_method = ''onMissingRemoteProxy'', h_expected = Str ''none'',
               h_observed = Str ''one'',
               h_meta = proxyMeta alias address implementation\<rparr> c)"

definition checkUnregisteredLocalProxies :: "visitor \<Rightarrow> proxyEntry list \<Rightarrow> checker \<Rightarrow> checker" where
  "checkUnregisteredLocalProxies v proxiesInfo c =
     (let foundAddresses = map p_address proxiesInfo
      in fold
           (\<lambda>proxy.
              visit v \<lparr>h_method = ''onUnregisteredLocalProxy'', h_expected = Str ''one'',
                h_observed = Str ''none'',
                h_meta = proxyMeta (p_alias proxy) (p_address proxy) (p_implementation proxy)\<rparr>)
           (filter (\<lambda>proxy. p_address proxy \<notin> set foundAddresses)
              (proxiesList (networkFile c)))
           c)"

text \<open>
  The callbacks of \<^verbatim>\<open>Promise.all(proxyEvents.map(async event => ...))\<close> each run up to
  their \<^verbatim>\<open>await\<close> in the order of the events, and each goes on when its own read
  resolves. \<open>completionOrder ks xs\<close> is the order in which the reads of \<open>xs\<close> resolve: at
  each step the next number of \<open>ks\<close> picks one of the reads still pending, and when \<open>ks\<close>
  is used up the rest resolve in their order.
\<close>

function completionOrder :: "nat list \<Rightarrow> 'a list \<Rightarrow> 'a list" where
  "completionOrder ks [] = []"
| "completionOrder [] (x # xs) = x # xs"
| "completionOrder (k # ks) (x # xs) =
     (let i = k mod length (x # xs)
      in (x # xs) ! i # completionOrder ks (take i (x # xs) @ drop (Suc i) (x # xs)))"
  by pat_completeness auto
termination
  by (relation "measure (\<lambda>(ks, xs). length xs)") auto

text \<open>What a callback of \<^verbatim>\<open>_fetchOnChainProxies\<close> does once its read has resolved.\<close>

definition proxyResolved ::
  "visitor \<Rightarrow> implementationInfo list \<Rightarrow> project \<Rightarrow> proxyCreated \<Rightarrow>
     proxyEntry list \<times> checker \<Rightarrow> proxyEntry list \<times> checker" where
  "proxyResolved v implementationsInfo p event = (\<lambda>(proxiesInfo, c).
     let address = args_proxy event;
         implementation = getProxyImplementation p address;
         matchingImplementations =
           filter (\<lambda>info. i_address info = implementation) implementationsInfo
     in if length matchingImplementations > 1
        then (proxiesInfo,
              visit v \<lparr>h_method = ''onMultipleProxyImplementations'', h_expected = Str ''one'',
                h_observed = Num (length matchingImplementations),
                h_meta = [(''implementation'', implementation)]\<rparr> c)
        else if length matchingImplementations = 0
        then (proxiesInfo,
              visit v \<lparr>h_method = ''onUnregisteredProxyImplementation'',
                h_expected = Str ''one'', h_observed = Str ''none'',
                h_meta = [(''address'', address), (''implementation'', implementation)]\<rparr> c)
        else (let alias = i_alias (hd matchingImplementations)
              in (proxiesInfo @ [\<lparr>p_alias = alias, p_address = address,
                                   p_implementation = implementation\<rparr>], c)))"

definition fetchOnChainProxies :: "visitor \<Rightarrow> ledger \<Rightarrow> proxyEntry list action" where
  "fetchOnChainProxies v L =
     andThen fetchOnChainImplementations (\<lambda>implementationsInfo.
     andThen (project L) (\<lambda>p c.
       let proxyEvents = factory_events p;
           c1 = readLedger (EventsFilterCall ''ProxyCreated'') c;
           c2 = fold (\<lambda>event. readLedger (GetProxyImplementation (args_proxy event)))
                  proxyEvents c1;
           resolved =
             fold (proxyResolved v implementationsInfo p)
               (completionOrder (resolution p) proxyEvents) ([], c2)
       in (Inr (fst resolved), snd resolved)))"

definition checkProxies :: "visitor \<Rightarrow> ledger \<Rightarrow> unit action" where
  "checkProxies v L =
     andThen (fetchOnChainProxies v L) (\<lambda>proxiesInfo c.
       (Inr (), checkUnregisteredLocalProxies v proxiesInfo
                  (fold (checkRemoteProxy v) proxiesInfo c)))"

section \<open>The run\<close>

definition checkApp :: "visitor \<Rightarrow> ledger \<Rightarrow> unit action" where
  "checkApp v L =
     andThen (checkVersion v L) (\<lambda>u.
     andThen (checkPackage v) (\<lambda>u.
     andThen (checkProvider v) (\<lambda>u.
     andThen (checkStdlib v L) (\<lambda>u.
     andThen (checkImplementations v L) (\<lambda>u.
     checkProxies v L)))))"

definition checkLib :: "visitor \<Rightarrow> ledger \<Rightarrow> unit action" where
  "checkLib v L =
     andThen (checkProvider v) (\<lambda>u.
     checkImplementations v L)"

text \<open>
  \<^verbatim>\<open>call()\<close>. The line for the log reads the address of the project's package and has
  no other effect.
\<close>

definition call :: "visitor \<Rightarrow> ledger \<Rightarrow> unit action" where
  "call v L =
     andThen (project L) (\<lambda>p.
     andThen (\<lambda>c. (Inr (), readLedger GetProjectPackage c)) (\<lambda>u.
     andThen (\<lambda>c. if isLib (networkFile c) then checkLib v L c else checkApp v L c) (\<lambda>u c.
     (Inr (),
      visit v \<lparr>h_method = ''onEndChecking'', h_expected = Undefined,
        h_observed = Undefined, h_meta = []\<rparr> c))))"

text \<open>The constructor: nothing fetched, nothing reported, nothing read.\<close>

definition newChecker :: "networkFile \<Rightarrow> checker" where
  "newChecker nf = \<lparr>networkFile = nf, project_cache = None, calls = [], reads = []\<rparr>"

text \<open>
  Modelled from the spec: the class StatusComparator is not among the sources. The
  spec's Comparator keeps a record of each call and changes nothing in the descriptor.
\<close>

definition reporting :: visitor where
  "reporting h nf = nf"

section \<open>Definitions for the statements\<close>

text \<open>
  The spec's words for the current registration of an alias: the chronologically last
  event for that alias.
\<close>

definition lastEventFor :: "string \<Rightarrow> implementationChanged list \<Rightarrow> implementationChanged option" where
  "lastEventFor a evs =
     (case filter (\<lambda>e. args_contractName e = a) evs of [] \<Rightarrow> None | es \<Rightarrow> Some (last es))"

text \<open>
  The spec's words for the comparison of the stdlib: the zero address read from the ledger
  and an unset field of the descriptor both stand for the logical value none.
\<close>

definition noneIfZero :: "string \<Rightarrow> jsval" where
  "noneIfZero a = (if a = ZERO_ADDRESS then Str ''none'' else Str a)"

definition noneIfUnset :: "jsval \<Rightarrow> jsval" where
  "noneIfUnset x = (if truthy x then x else Str ''none'')"

text \<open>
  The lifetime of one instance: a sequence of calls of its methods, each against the
  ledger as it is at that moment. \<open>invoke\<close> keeps the instance and drops the result.
\<close>

datatype invocation =
    Project | Call | CheckApp | CheckLib | CheckVersion | CheckPackage | CheckProvider
  | CheckStdlib | CheckImplementations | CheckProxies

fun invoke :: "visitor \<Rightarrow> ledger \<times> invocation \<Rightarrow> checker \<Rightarrow> checker" where
  "invoke v (L, Project) c = snd (project L c)"
| "invoke v (L, Call) c = snd (call v L c)"
| "invoke v (L, CheckApp) c = snd (checkApp v L c)"
| "invoke v (L, CheckLib) c = snd (checkLib v L c)"
| "invoke v (L, CheckVersion) c = snd (checkVersion v L c)"
| "invoke v (L, CheckPackage) c = snd (checkPackage v c)"
| "invoke v (L, CheckProvider) c = snd (checkProvider v c)"
| "invoke v (L, CheckStdlib) c = snd (checkStdlib v L c)"
| "invoke v (L, CheckImplementations) c = snd (checkImplementations v L c)"
| "invoke v (L, CheckProxies) c = snd (checkProxies v L c)"

text \<open>A fetch of the project handle, among the reads of the ledger.\<close>

fun isFetch :: "ledgerRead \<Rightarrow> bool" where
  "isFetch (FetchLibProject a b) = True"
| "isFetch (FetchAppProject a) = True"
| "isFetch r = False"

definition handleState :: "checker \<Rightarrow> project option \<times> ledgerRead list" where
  "handleState c = (project_cache c, filter isFetch (reads c))"

definition keepsHandle :: "'a action \<Rightarrow> bool" where
  "keepsHandle m =
     (\<forall>c. project_cache c \<noteq> None \<longrightarrow> handleState (snd (m c)) = handleState c)"

text \<open>The value of a field of a call's \<open>meta\<close>: \<open>about k x h\<close> when field \<open>k\<close> of \<open>h\<close> is \<open>x\<close>.\<close>

definition about :: "string \<Rightarrow> string \<Rightarrow> hook \<Rightarrow> bool" where
  "about k x h = (map_of (h_meta h) k = Some x)"

text \<open>
  A visitor that touches only the entry of the alias it is called about: a call about
  one alias leaves the presence of every other alias's contract entry as it is, and a
  call of \<^verbatim>\<open>onMismatchingContractAddress\<close> removes no entry. The visitor that only reports
  is one; so is a visitor that writes the observed entry for the alias of the call and
  removes the entry of an alias reported as registered only locally.
\<close>

definition touchesOwnAlias :: "visitor \<Rightarrow> bool" where
  "touchesOwnAlias v =
     ((\<forall>h nf a. \<not> about ''alias'' a h \<longrightarrow> hasContract (v h nf) a = hasContract nf a) \<and>
      (\<forall>h nf a. h_method h = ''onMismatchingContractAddress'' \<longrightarrow> hasContract nf a \<longrightarrow>
         hasContract (v h nf) a))"

text \<open>
  \<open>ran v P Q c c'\<close>: from \<open>c\<close> to \<open>c'\<close> the handle kept is the same, the visitor was called
  with calls that all satisfy \<open>P\<close> (and the network file is what these calls made of it),
  and the ledger was read with reads that all satisfy \<open>Q\<close>.
\<close>

definition ran ::
  "visitor \<Rightarrow> (hook \<Rightarrow> bool) \<Rightarrow> (ledgerRead \<Rightarrow> bool) \<Rightarrow> checker \<Rightarrow> checker \<Rightarrow> bool" where
  "ran v P Q c c' =
     (project_cache c' = project_cache c \<and>
      (\<exists>hs. calls c' = calls c @ hs \<and> networkFile c' = fold v hs (networkFile c) \<and>
            (\<forall>h \<in> set hs. P h)) \<and>
      (\<exists>rs. reads c' = reads c @ rs \<and> (\<forall>r \<in> set rs. Q r)))"

text \<open>The calls and the reads of the implementation check.\<close>

definition implementationCall :: "hook \<Rightarrow> bool" where
  "implementationCall h =
     (h_method h = ''onMissingRemoteContract'' \<or> h_method h = ''onMismatchingContractAddress'' \<or>
      h_method h = ''onMismatchingContractBodyBytecode'' \<or>
      h_method h = ''onUnregisteredLocalContract'')"

fun isGetCode :: "ledgerRead \<Rightarrow> bool" where
  "isGetCode (GetCode a) = True"
| "isGetCode r = False"

fun implementationRead :: "ledgerRead \<Rightarrow> bool" where
  "implementationRead GetCurrentDirectory = True"
| "implementationRead (EventsFilterCall name) = (name = ''ImplementationChanged'')"
| "implementationRead (GetCode a) = True"
| "implementationRead r = False"

text \<open>An action whose calls of the visitor all satisfy \<open>P\<close>, whether it returns or throws.\<close>

definition callsOnly :: "(hook \<Rightarrow> bool) \<Rightarrow> 'a action \<Rightarrow> bool" where
  "callsOnly P m = (\<forall>c. \<exists>hs. calls (snd (m c)) = calls c @ hs \<and> (\<forall>h \<in> set hs. P h))"

text \<open>The two calls the statements name.\<close>

definition endChecking :: hook where
  "endChecking = \<lparr>h_method = ''onEndChecking'', h_expected = Undefined,
        h_observed = Undefined, h_meta = []\<rparr>"

definition missingRemoteContract :: "implementationInfo \<Rightarrow> hook" where
  "missingRemoteContract info =
     \<lparr>h_method = ''onMissingRemoteContract'', h_expected = Str ''none'',
      h_observed = Str ''one'',
      h_meta = [(''alias'', i_alias info), (''address'', i_address info)]\<rparr>"

text \<open>
  The entries of the reconciled set that a proxy's current implementation matches, and
  what a callback of \<^verbatim>\<open>_fetchOnChainProxies\<close> does with them: the calls it makes, and the
  entry it pushes.
\<close>

definition matching :: "implementationInfo list \<Rightarrow> project \<Rightarrow> string \<Rightarrow> implementationInfo list" where
  "matching infos p a = filter (\<lambda>info. i_address info = getProxyImplementation p a) infos"

definition multipleProxyImplementations :: "nat \<Rightarrow> string \<Rightarrow> hook" where
  "multipleProxyImplementations n implementation =
     \<lparr>h_method = ''onMultipleProxyImplementations'', h_expected = Str ''one'',
      h_observed = Num n, h_meta = [(''implementation'', implementation)]\<rparr>"

definition unregisteredProxyImplementation :: "string \<Rightarrow> string \<Rightarrow> hook" where
  "unregisteredProxyImplementation address implementation =
     \<lparr>h_method = ''onUnregisteredProxyImplementation'', h_expected = Str ''one'',
      h_observed = Str ''none'',
      h_meta = [(''address'', address), (''implementation'', implementation)]\<rparr>"

definition resolvedCalls :: "implementationInfo list \<Rightarrow> project \<Rightarrow> proxyCreated \<Rightarrow> hook list" where
  "resolvedCalls infos p event =
     (let a = args_proxy event; n = length (matching infos p a)
      in if n > 1 then [multipleProxyImplementations n (getProxyImplementation p a)]
         else if n = 0 then [unregisteredProxyImplementation a (getProxyImplementation p a)]
         else [])"

definition resolvedEntry :: "implementationInfo list \<Rightarrow> project \<Rightarrow> proxyCreated \<Rightarrow> proxyEntry list" where
  "resolvedEntry infos p event =
     (let a = args_proxy event
      in if length (matching infos p a) = 1
         then [\<lparr>p_alias = i_alias (hd (matching infos p a)), p_address = a,
                 p_implementation = getProxyImplementation p a\<rparr>]
         else [])"

text \<open>The calls of \<^verbatim>\<open>_checkRemoteProxy\<close>: the checks of a proxy by its alias.\<close>

definition aliasBasedCall :: "hook \<Rightarrow> bool" where
  "aliasBasedCall h =
     (h_method h = ''onMissingRemoteProxy'' \<or> h_method h = ''onMismatchingProxyAlias'' \<or>
      h_method h = ''onMismatchingProxyImplementation'')"

text \<open>
  An action that calls the visitor with at most \<open>n\<close> calls satisfying \<open>P\<close>, whether it
  returns or throws; the calls of the four scalar checks, and the calls of the proxy
  check.
\<close>

definition callsCount :: "(hook \<Rightarrow> bool) \<Rightarrow> nat \<Rightarrow> 'a action \<Rightarrow> bool" where
  "callsCount P n m =
     (\<forall>c. \<exists>hs. calls (snd (m c)) = calls c @ hs \<and> length (filter P hs) \<le> n)"

definition scalarCall :: "hook \<Rightarrow> bool" where
  "scalarCall h =
     (h_method h = ''onMismatchingVersion'' \<or> h_method h = ''onMismatchingPackage'' \<or>
      h_method h = ''onMismatchingProvider'' \<or> h_method h = ''onMismatchingStdlib'')"

definition proxyCall :: "hook \<Rightarrow> bool" where
  "proxyCall h =
     (h_method h = ''onMultipleProxyImplementations'' \<or>
      h_method h = ''onUnregisteredProxyImplementation'' \<or> aliasBasedCall h \<or>
      h_method h = ''onUnregisteredLocalProxy'')"

section \<open>Concrete ledgers and network files\<close>

definition events1 :: "implementationChanged list" where
  "events1 =
     [\<lparr>args_contractName = ''Token'', args_implementation = ''0xA''\<rparr>,
      \<lparr>args_contractName = ''Coin'', args_implementation = ''0xB''\<rparr>,
      \<lparr>args_contractName = ''Token'', args_implementation = ''0xC''\<rparr>,
      \<lparr>args_contractName = ''Coin'', args_implementation = ZERO_ADDRESS\<rparr>]"

definition project1 :: project where
  "project1 =
     \<lparr>project_version = ''1.0'', package_address = ''0xPkg'',
      directory_address = ''0xDir'',
      directory_events = events1, currentStdlib = ZERO_ADDRESS, factory_events = [],
      getProxyImplementation = (\<lambda>a. ''0xC''), resolution = []\<rparr>"

definition networkFile1 :: networkFile where
  "networkFile1 =
     \<lparr>isLib = False, version = Str ''1.0'', appAddress = Str ''0xApp'',
      packageAddress = Str ''0xPkg'', providerAddress = Str ''0xDir'',
      stdlibAddress = Undefined,
      contracts = [(''Token'', \<lparr>c_address = ''0xC'', c_bodyBytecodeHash = ''h1''\<rparr>)],
      proxies = []\<rparr>"

definition networkFileLib :: networkFile where
  "networkFileLib =
     \<lparr>isLib = True, version = Str ''1.0'', appAddress = Undefined,
      packageAddress = Str ''0xPkg'', providerAddress = Undefined,
      stdlibAddress = Undefined,
      contracts = [(''Token'', \<lparr>c_address = ''0xC'', c_bodyBytecodeHash = ''h1''\<rparr>)],
      proxies = []\<rparr>"

definition ledgerDown :: ledger where
  "ledgerDown =
     \<lparr>LibProject_fetch = (\<lambda>a b. Inl (JsError ''no contract at the address'' None)),
      AppProject_fetch = (\<lambda>a. Inl (JsError ''no contract at the address'' None)),
      bytecodeDigest_getCode = (\<lambda>a. ''h1'')\<rparr>"

definition ledger1 :: ledger where
  "ledger1 =
     \<lparr>LibProject_fetch = (\<lambda>a b. Inr project1),
      AppProject_fetch = (\<lambda>a. Inr project1),
      bytecodeDigest_getCode = (\<lambda>a. ''h1'')\<rparr>"

definition networkFile3 :: networkFile where
  "networkFile3 =
     \<lparr>isLib = False, version = Str ''1.0'', appAddress = Str ''0xApp'',
      packageAddress = Str ''0xPkg'', providerAddress = Undefined,
      stdlibAddress = Undefined, contracts = [], proxies = []\<rparr>"

definition project3 :: project where
  "project3 =
     \<lparr>project_version = ''1.0'', package_address = ''0xPkg'',
      directory_address = ZERO_ADDRESS,
      directory_events = [], currentStdlib = ZERO_ADDRESS, factory_events = [],
      getProxyImplementation = (\<lambda>a. ZERO_ADDRESS), resolution = []\<rparr>"

definition ledger3 :: ledger where
  "ledger3 =
     \<lparr>LibProject_fetch = (\<lambda>a b. Inr project3),
      AppProject_fetch = (\<lambda>a. Inr project3),
      bytecodeDigest_getCode = (\<lambda>a. ''h1'')\<rparr>"

definition networkFile4 :: networkFile where
  "networkFile4 =
     \<lparr>isLib = False, version = Str ''1.0'', appAddress = Str ''0xApp'',
      packageAddress = Str ''0xPkg'', providerAddress = Str ''0xDir'',
      stdlibAddress = Undefined, contracts = [], proxies = []\<rparr>"

definition networkFile2 :: networkFile where
  "networkFile2 =
     \<lparr>isLib = False, version = Str ''1.0'', appAddress = Str ''0xApp'',
      packageAddress = Str ''0xPkg'', providerAddress = Str ''0xDir'',
      stdlibAddress = Undefined,
      contracts = [(''Token'', \<lparr>c_address = ''0xB'', c_bodyBytecodeHash = ''h1''\<rparr>),
                   (''Coin'', \<lparr>c_address = ''0xA'', c_bodyBytecodeHash = ''h2''\<rparr>)],
      proxies = [\<lparr>p_alias = ''Token'', p_address = ''0xP'', p_implementation = ''0xA''\<rparr>]\<rparr>"

definition project2 :: project where
  "project2 =
     \<lparr>project_version = ''1.0'', package_address = ''0xPkg'',
      directory_address = ''0xDir'',
      directory_events =
        [\<lparr>args_contractName = ''Token'', args_implementation = ''0xA''\<rparr>,
         \<lparr>args_contractName = ''Coin'', args_implementation = ''0xA''\<rparr>],
      currentStdlib = ZERO_ADDRESS,
      factory_events = [\<lparr>args_proxy = ''0xP''\<rparr>],
      getProxyImplementation = (\<lambda>a. ''0xA''), resolution = []\<rparr>"

definition ledger2 :: ledger where
  "ledger2 =
     \<lparr>LibProject_fetch = (\<lambda>a b. Inr project2),
      AppProject_fetch = (\<lambda>a. Inr project2),
      bytecodeDigest_getCode = (\<lambda>a. ''h2'')\<rparr>"

definition networkFile5 :: networkFile where
  "networkFile5 =
     \<lparr>isLib = False, version = Str ''1.0'', appAddress = Str ''0xApp'',
      packageAddress = Str ''0xPkg'', providerAddress = Str ''0xDir'',
      stdlibAddress = Undefined,
      contracts = [(''Token'', \<lparr>c_address = ''0xC'', c_bodyBytecodeHash = ''h1''\<rparr>)],
      proxies = [\<lparr>p_alias = ''Token'', p_address = ''0xP'', p_implementation = ''0xC''\<rparr>]\<rparr>"

definition project5 :: project where
  "project5 =
     \<lparr>project_version = ''1.0'', package_address = ''0xPkg'',
      directory_address = ''0xDir'',
      directory_events = events1, currentStdlib = ZERO_ADDRESS,
      factory_events = [\<lparr>args_proxy = ''0xP''\<rparr>, \<lparr>args_proxy = ''0xQ''\<rparr>],
      getProxyImplementation = (\<lambda>a. if a = ''0xP'' then ''0xC'' else ''0xZ''),
      resolution = [1]\<rparr>"

section \<open>Properties of the reconstruction\<close>

lemma lastIndexOf_bounds: "- 1 \<le> lastIndexOf xs x \<and> lastIndexOf xs x < int (length xs)"
  by (induction xs) (auto simp: Let_def)

lemma lastIndexOf_absent: "(lastIndexOf xs x < 0) = (x \<notin> set xs)"
  by (induction xs) (auto simp: Let_def)

lemma lastIndexOf_nth: "0 \<le> lastIndexOf xs x \<Longrightarrow> xs ! nat (lastIndexOf xs x) = x"
proof (induction xs)
  case Nil
  then show ?case by simp
next
  case (Cons y ys)
  show ?case
  proof (cases "0 \<le> lastIndexOf ys x")
    case True
    then have "nat (lastIndexOf ys x + 1) = Suc (nat (lastIndexOf ys x))" by simp
    with True Cons.IH show ?thesis by (simp add: Let_def)
  next
    case False
    with Cons.prems show ?thesis by (simp add: Let_def split: if_splits)
  qed
qed

lemma lastIndexOf_greatest: "i < length xs \<Longrightarrow> xs ! i = x \<Longrightarrow> int i \<le> lastIndexOf xs x"
proof (induction xs arbitrary: i)
  case Nil
  then show ?case by simp
next
  case (Cons y ys)
  show ?case
  proof (cases i)
    case 0
    with Cons.prems show ?thesis
      using lastIndexOf_bounds [of ys x] by (simp add: Let_def)
  next
    case (Suc j)
    with Cons.prems have "int j \<le> lastIndexOf ys x" using Cons.IH [of j] by simp
    with Suc show ?thesis by (simp add: Let_def)
  qed
qed

lemma lastIndexOf_last_filter:
  "0 \<le> lastIndexOf (map f xs) a \<Longrightarrow>
     filter (\<lambda>e. f e = a) xs \<noteq> [] \<and>
     last (filter (\<lambda>e. f e = a) xs) = xs ! nat (lastIndexOf (map f xs) a)"
proof (induction xs)
  case Nil
  then show ?case by simp
next
  case (Cons y ys)
  show ?case
  proof (cases "0 \<le> lastIndexOf (map f ys) a")
    case True
    then have n: "nat (lastIndexOf (map f ys) a + 1) = Suc (nat (lastIndexOf (map f ys) a))"
      by simp
    from True Cons.IH n show ?thesis by (simp add: Let_def)
  next
    case False
    then have "a \<notin> set (map f ys)" using lastIndexOf_absent [of "map f ys" a] by simp
    then have "filter (\<lambda>e. f e = a) ys = []" by (auto simp: filter_empty_conv)
    with False Cons.prems show ?thesis by (simp add: Let_def split: if_splits)
  qed
qed

lemma filter_index_nth:
  "filter_index P xs = map (\<lambda>i. xs ! i) (filter (\<lambda>i. P (xs ! i) (int i)) [0..<length xs])"
proof -
  have "zip xs [0..<length xs] = map (\<lambda>i. (xs ! i, i)) [0..<length xs]"
    by (rule nth_equalityI) simp_all
  then show ?thesis
    by (simp add: filter_index_def filter_map comp_def)
qed

lemma lastEventFor_eq:
  "lastEventFor a evs =
     (if lastIndexOf (map args_contractName evs) a < 0 then None
      else Some (evs ! nat (lastIndexOf (map args_contractName evs) a)))"
proof (cases "lastIndexOf (map args_contractName evs) a < 0")
  case True
  then have "a \<notin> set (map args_contractName evs)"
    using lastIndexOf_absent [of "map args_contractName evs" a] by simp
  then have "filter (\<lambda>e. args_contractName e = a) evs = []"
    by (auto simp: filter_empty_conv)
  with True show ?thesis by (simp add: lastEventFor_def)
next
  case False
  then have "0 \<le> lastIndexOf (map args_contractName evs) a" by simp
  from lastIndexOf_last_filter [OF this]
  obtain y ys where f: "filter (\<lambda>e. args_contractName e = a) evs = y # ys"
    and l: "last (y # ys) = evs ! nat (lastIndexOf (map args_contractName evs) a)"
    by (cases "filter (\<lambda>e. args_contractName e = a) evs") auto
  from False f l show ?thesis by (simp add: lastEventFor_def)
qed

lemma implementationsOf_nth:
  "implementationsOf evs =
     map (\<lambda>i. \<lparr>i_alias = args_contractName (evs ! i), i_address = args_implementation (evs ! i)\<rparr>)
       (filter (\<lambda>i. args_implementation (evs ! i) \<noteq> ZERO_ADDRESS)
          (filter (\<lambda>i. lastIndexOf (map args_contractName evs) (args_contractName (evs ! i)) = int i)
             [0..<length evs]))"
  by (simp add: implementationsOf_def Let_def filter_index_nth filter_map comp_def)

lemma implementationsOf_distinct: "distinct (map i_alias (implementationsOf evs))"
proof -
  let ?names = "map args_contractName evs"
  let ?is = "filter (\<lambda>i. args_implementation (evs ! i) \<noteq> ZERO_ADDRESS)
          (filter (\<lambda>i. lastIndexOf ?names (args_contractName (evs ! i)) = int i) [0..<length evs])"
  have d: "distinct ?is" by simp
  have inj: "inj_on (\<lambda>i. args_contractName (evs ! i)) (set ?is)"
  proof (rule inj_onI)
    fix i j
    assume "i \<in> set ?is" "j \<in> set ?is" "args_contractName (evs ! i) = args_contractName (evs ! j)"
    then have "int i = int j" by auto
    then show "i = j" by simp
  qed
  have "map i_alias (implementationsOf evs) = map (\<lambda>i. args_contractName (evs ! i)) ?is"
    by (simp add: implementationsOf_nth comp_def)
  with d inj show ?thesis by (simp add: distinct_map)
qed

lemma implementationsOf_member:
  "(\<lparr>i_alias = a, i_address = addr\<rparr> \<in> set (implementationsOf evs)) =
     (\<exists>e. lastEventFor a evs = Some e \<and> args_implementation e = addr \<and> addr \<noteq> ZERO_ADDRESS)"
proof
  assume "\<lparr>i_alias = a, i_address = addr\<rparr> \<in> set (implementationsOf evs)"
  then obtain i where i: "i < length evs"
      "lastIndexOf (map args_contractName evs) (args_contractName (evs ! i)) = int i"
      "args_implementation (evs ! i) \<noteq> ZERO_ADDRESS"
      "a = args_contractName (evs ! i)" "addr = args_implementation (evs ! i)"
    by (auto simp: implementationsOf_nth)
  then have "lastEventFor a evs = Some (evs ! i)" by (simp add: lastEventFor_eq)
  with i show "\<exists>e. lastEventFor a evs = Some e \<and> args_implementation e = addr \<and> addr \<noteq> ZERO_ADDRESS"
    by simp
next
  let ?names = "map args_contractName evs"
  assume "\<exists>e. lastEventFor a evs = Some e \<and> args_implementation e = addr \<and> addr \<noteq> ZERO_ADDRESS"
  then obtain e where e: "lastEventFor a evs = Some e" "args_implementation e = addr"
      "addr \<noteq> ZERO_ADDRESS" by blast
  from e(1) have nn: "0 \<le> lastIndexOf ?names a" and ee: "e = evs ! nat (lastIndexOf ?names a)"
    by (auto simp: lastEventFor_eq split: if_splits)
  define i where "i = nat (lastIndexOf ?names a)"
  from nn have ii: "lastIndexOf ?names a = int i" by (simp add: i_def)
  have len: "i < length evs" using lastIndexOf_bounds [of ?names a] ii by simp
  have "?names ! i = a" using lastIndexOf_nth [OF nn] by (simp add: i_def)
  with len have cn: "args_contractName (evs ! i) = a" by simp
  from ee have ei: "evs ! i = e" by (simp add: i_def)
  have "i \<in> set (filter (\<lambda>i. args_implementation (evs ! i) \<noteq> ZERO_ADDRESS)
          (filter (\<lambda>i. lastIndexOf ?names (args_contractName (evs ! i)) = int i) [0..<length evs]))"
    using len cn ii e(2,3) ei by simp
  then have "\<lparr>i_alias = args_contractName (evs ! i), i_address = args_implementation (evs ! i)\<rparr>
      \<in> set (implementationsOf evs)"
    unfolding implementationsOf_nth set_map by (rule imageI)
  with cn e(2) ei show "\<lparr>i_alias = a, i_address = addr\<rparr> \<in> set (implementationsOf evs)"
    by simp
qed

text \<open>
  C1. Whatever the history of \<^verbatim>\<open>ImplementationChanged\<close> events,
  \<^verbatim>\<open>_fetchOnChainImplementations\<close> returns a list with at most one entry for an alias;
  an entry with alias \<open>a\<close> and address \<open>addr\<close> is in it exactly when the chronologically
  last event for \<open>a\<close> carries \<open>addr\<close> and \<open>addr\<close> is not the zero address; so an alias whose
  last event carries the zero address has no entry.
\<close>

theorem fetchOnChainImplementations_last_event_wins:
  "project_cache c = Some p \<Longrightarrow>
   (\<exists>infos c'.
      fetchOnChainImplementations c = (Inr infos, c') \<and>
      distinct (map i_alias infos) \<and>
      (\<forall>a addr. (\<lparr>i_alias = a, i_address = addr\<rparr> \<in> set infos) =
         (\<exists>e. lastEventFor a (directory_events p) = Some e \<and>
              args_implementation e = addr \<and> addr \<noteq> ZERO_ADDRESS)) \<and>
      (\<forall>a e. lastEventFor a (directory_events p) = Some e \<and>
          args_implementation e = ZERO_ADDRESS \<longrightarrow> a \<notin> set (map i_alias infos)))"
proof -
  assume pc: "project_cache c = Some p"
  let ?infos = "implementationsOf (directory_events p)"
  have zero: "\<forall>a e. lastEventFor a (directory_events p) = Some e \<and>
          args_implementation e = ZERO_ADDRESS \<longrightarrow> a \<notin> set (map i_alias ?infos)"
  proof (intro allI impI notI)
    fix a e
    assume le: "lastEventFor a (directory_events p) = Some e \<and>
          args_implementation e = ZERO_ADDRESS"
    assume "a \<in> set (map i_alias ?infos)"
    then obtain info where info: "info \<in> set ?infos" "i_alias info = a" by auto
    obtain x y where xy: "info = \<lparr>i_alias = x, i_address = y\<rparr>" by (cases info) auto
    with info have "\<lparr>i_alias = a, i_address = i_address info\<rparr> \<in> set ?infos"
      by simp
    then obtain e' where "lastEventFor a (directory_events p) = Some e'"
        "args_implementation e' = i_address info" "i_address info \<noteq> ZERO_ADDRESS"
      unfolding implementationsOf_member by blast
    with le show False by simp
  qed
  from pc have "\<exists>c'. fetchOnChainImplementations c = (Inr ?infos, c')"
    by (simp add: fetchOnChainImplementations_def)
  with zero show ?thesis
    using implementationsOf_distinct [of "directory_events p"]
      implementationsOf_member [of _ _ "directory_events p"]
    by blast
qed

theorem fetchOnChainImplementations_last_event_wins_witness:
  "project_cache ((newChecker networkFile1)\<lparr>project_cache := Some project1\<rparr>) = Some project1 \<and>
   fst (fetchOnChainImplementations ((newChecker networkFile1)\<lparr>project_cache := Some project1\<rparr>))
     = Inr [\<lparr>i_alias = ''Token'', i_address = ''0xC''\<rparr>] \<and>
   lastEventFor ''Token'' (directory_events project1)
     = Some \<lparr>args_contractName = ''Token'', args_implementation = ''0xC''\<rparr> \<and>
   lastEventFor ''Coin'' (directory_events project1)
     = Some \<lparr>args_contractName = ''Coin'', args_implementation = ZERO_ADDRESS\<rparr>"
  using fetchOnChainImplementations_last_event_wins
    [of "(newChecker networkFile1)\<lparr>project_cache := Some project1\<rparr>" project1]
  by (simp add: newChecker_def fetchOnChainImplementations_def implementationsOf_def
      filter_index_def project1_def events1_def lastEventFor_def ZERO_ADDRESS_def upt_rec)

section \<open>Unfolding a concrete run\<close>

lemmas run_defs = call_def andThen_def project_def newChecker_def readLedger_def checkApp_def checkLib_def
      checkVersion_def checkPackage_def checkProvider_def checkStdlib_def visit_def reporting_def
      checkImplementations_def fetchOnChainImplementations_def implementationsOf_def
      filter_index_def checkRemoteImplementation_def checkImplementationAddress_def
      checkImplementationBytecode_def checkUnregisteredLocalImplementations_def
      hasContract_def contract_def contractAliases_def checkProxies_def fetchOnChainProxies_def
      proxyResolved_def checkRemoteProxy_def checkProxyAlias_def checkProxyImplementation_def
      checkUnregisteredLocalProxies_def proxiesList_def proxyMeta_def js_or_def ZERO_ADDRESS_def
      Let_def upt_rec

section \<open>The handle and the scalar checks\<close>

lemma project_Inr:
  "project L c = (Inr p, c1) \<Longrightarrow>
     project_cache c1 = Some p \<and> networkFile c1 = networkFile c \<and> calls c1 = calls c"
  by (auto simp: project_def readLedger_def Let_def split: option.splits sum.splits if_splits)

lemma project_Inl:
  "project L c = (Inl e, c1) \<Longrightarrow>
     project_cache c = None \<and> project_cache c1 = None \<and> networkFile c1 = networkFile c \<and> calls c1 = calls c
     \<and> message e = ''Cannot fetch project contract from address '' @ toString (appAddress (networkFile c)) @ ''.''"
  by (auto simp: project_def readLedger_def Let_def Error_def split: option.splits sum.splits if_splits)

text \<open>
  C8. When the descriptor's \<open>stdlibAddress\<close> is unset and the ledger reports the zero address
  for the current stdlib, the stdlib check returns and calls no method of the visitor.
\<close>

theorem checkStdlib_unset_and_zero:
  "project L c = (Inr p, c0) \<Longrightarrow> stdlibAddress (networkFile c) = Undefined \<Longrightarrow>
   currentStdlib p = ZERO_ADDRESS \<Longrightarrow>
   (\<exists>c1. checkStdlib v L c = (Inr (), c1) \<and> calls c1 = calls c)"
proof -
  assume pr: "project L c = (Inr p, c0)" and un: "stdlibAddress (networkFile c) = Undefined"
    and z: "currentStdlib p = ZERO_ADDRESS"
  from project_Inr [OF pr] have "networkFile c0 = networkFile c" "calls c0 = calls c" by simp_all
  with un z show ?thesis
    by (simp add: checkStdlib_def andThen_def pr readLedger_def js_or_def Let_def)
qed

theorem checkStdlib_unset_and_zero_witness:
  "project ledger1 (newChecker networkFile1) =
     (Inr project1, (newChecker networkFile1)\<lparr>project_cache := Some project1,
        reads := [FetchAppProject (Str ''0xApp'')]\<rparr>) \<and>
   stdlibAddress (networkFile (newChecker networkFile1)) = Undefined \<and>
   currentStdlib project1 = ZERO_ADDRESS \<and>
   fst (checkStdlib reporting ledger1 (newChecker networkFile1)) = Inr () \<and>
   calls (snd (checkStdlib reporting ledger1 (newChecker networkFile1))) = []"
proof -
  have a: "project ledger1 (newChecker networkFile1) =
     (Inr project1, (newChecker networkFile1)\<lparr>project_cache := Some project1,
        reads := [FetchAppProject (Str ''0xApp'')]\<rparr>)"
    by (simp add: project_def newChecker_def networkFile1_def ledger1_def readLedger_def)
  have b: "stdlibAddress (networkFile (newChecker networkFile1)) = Undefined"
    by (simp add: newChecker_def networkFile1_def)
  have d: "currentStdlib project1 = ZERO_ADDRESS" by (simp add: project1_def)
  from checkStdlib_unset_and_zero [OF a b d, of reporting] a b d show ?thesis
    by (auto simp: newChecker_def)
qed

text \<open>
  C3 as stated fails for the provider check: with no provider address in the descriptor
  and the zero address as the directory's address on the ledger, a run calls
  \<^verbatim>\<open>onMismatchingProvider(undefined, ZERO_ADDRESS)\<close>, while the stdlib check of the same
  run, with the same two values, calls nothing.
\<close>

theorem checkProvider_zero_address_counterexample:
  "providerAddress networkFile3 = Undefined \<and>
   stdlibAddress networkFile3 = Undefined \<and>
   AppProject_fetch ledger3 (appAddress networkFile3) = Inr project3 \<and>
   directory_address project3 = ZERO_ADDRESS \<and>
   currentStdlib project3 = ZERO_ADDRESS \<and>
   fst (call reporting ledger3 (newChecker networkFile3)) = Inr () \<and>
   calls (snd (call reporting ledger3 (newChecker networkFile3))) =
     [\<lparr>h_method = ''onMismatchingProvider'', h_expected = Undefined,
        h_observed = Str ZERO_ADDRESS, h_meta = []\<rparr>,
      \<lparr>h_method = ''onEndChecking'', h_expected = Undefined,
        h_observed = Undefined, h_meta = []\<rparr>]"
  by (simp add: call_def andThen_def project_def newChecker_def networkFile3_def ledger3_def
      project3_def readLedger_def checkApp_def checkVersion_def checkPackage_def
      checkProvider_def checkStdlib_def visit_def reporting_def checkImplementations_def
      fetchOnChainImplementations_def implementationsOf_def filter_index_def
      checkUnregisteredLocalImplementations_def contractAliases_def checkProxies_def
      fetchOnChainProxies_def checkUnregisteredLocalProxies_def proxiesList_def js_or_def)

text \<open>
  C3, amended. The stdlib check turns a zero address read from the ledger into none
  before it compares, and an unset \<open>stdlibAddress\<close> into none as well: it calls
  \<^verbatim>\<open>onMismatchingStdlib\<close> exactly when the two normalized values differ. The provider
  check normalizes nothing: it calls \<^verbatim>\<open>onMismatchingProvider\<close> exactly when the
  directory's address as read differs from the descriptor's \<open>providerAddress\<close> as it is.
\<close>

theorem checkStdlib_normalizes_checkProvider_verbatim:
  "project_cache c = Some p \<Longrightarrow>
   (\<exists>c1. checkStdlib v L c = (Inr (), c1) \<and>
      calls c1 = calls c @
        (if noneIfZero (currentStdlib p) = noneIfUnset (stdlibAddress (networkFile c)) then []
         else [\<lparr>h_method = ''onMismatchingStdlib'',
                 h_expected = noneIfUnset (stdlibAddress (networkFile c)),
                 h_observed = noneIfZero (currentStdlib p), h_meta = []\<rparr>])) \<and>
   (\<exists>c2. checkProvider v c = (Inr (), c2) \<and>
      calls c2 = calls c @
        (if Str (directory_address p) = providerAddress (networkFile c) then []
         else [\<lparr>h_method = ''onMismatchingProvider'',
                 h_expected = providerAddress (networkFile c),
                 h_observed = Str (directory_address p), h_meta = []\<rparr>]))"
  by (simp add: checkStdlib_def checkProvider_def andThen_def project_def readLedger_def
      visit_def js_or_def noneIfZero_def noneIfUnset_def Let_def)

theorem checkStdlib_normalizes_checkProvider_verbatim_witness:
  "project_cache ((newChecker networkFile3)\<lparr>project_cache := Some project3\<rparr>) = Some project3 \<and>
   calls (snd (checkStdlib reporting ledger3
      ((newChecker networkFile3)\<lparr>project_cache := Some project3\<rparr>))) = [] \<and>
   calls (snd (checkProvider reporting
      ((newChecker networkFile3)\<lparr>project_cache := Some project3\<rparr>))) =
     [\<lparr>h_method = ''onMismatchingProvider'', h_expected = Undefined,
        h_observed = Str ZERO_ADDRESS, h_meta = []\<rparr>]"
  using checkStdlib_normalizes_checkProvider_verbatim
    [of "(newChecker networkFile3)\<lparr>project_cache := Some project3\<rparr>" project3
       reporting ledger3]
  by (auto simp: newChecker_def networkFile3_def project3_def noneIfZero_def noneIfUnset_def)

text \<open>
  C5. A library descriptor whose package address is \<^verbatim>\<open>0xPkg\<close>, on a ledger where the fetch
  fails: the run stops before any call of the visitor, but the error names
  \<^verbatim>\<open>appAddress\<close>, which a library descriptor does not have, and carries no cause.
\<close>

theorem call_lib_fetch_failure:
  "isLib networkFileLib \<and>
   packageAddress networkFileLib = Str ''0xPkg'' \<and>
   LibProject_fetch ledgerDown (packageAddress networkFileLib) (version networkFileLib)
     = Inl (JsError ''no contract at the address'' None) \<and>
   call reporting ledgerDown (newChecker networkFileLib) =
     (Inl (JsError ''Cannot fetch project contract from address undefined.'' None),
      (newChecker networkFileLib)
        \<lparr>reads := [FetchLibProject (Str ''0xPkg'') (Str ''1.0'')]\<rparr>) \<and>
   calls (snd (call reporting ledgerDown (newChecker networkFileLib))) = []"
  by (simp add: call_def andThen_def project_def newChecker_def networkFileLib_def
      ledgerDown_def readLedger_def Error_def)

section \<open>The handle is fetched once\<close>

lemma keepsHandleI:
  "(\<And>c. project_cache c \<noteq> None \<Longrightarrow> handleState (snd (m c)) = handleState c) \<Longrightarrow> keepsHandle m"
  by (simp add: keepsHandle_def)

lemma keepsHandleD:
  "keepsHandle m \<Longrightarrow> project_cache c \<noteq> None \<Longrightarrow> handleState (snd (m c)) = handleState c"
  by (simp add: keepsHandle_def)

lemma keepsHandle_andThen:
  assumes "keepsHandle m" and "\<And>x. keepsHandle (f x)"
  shows "keepsHandle (andThen m f)"
proof (rule keepsHandleI)
  fix c :: checker
  assume pc: "project_cache c \<noteq> None"
  obtain r c' where mc: "m c = (r, c')" by (cases "m c")
  with keepsHandleD [OF assms(1) pc] have hs: "handleState c' = handleState c" by simp
  with pc have pc': "project_cache c' \<noteq> None" by (simp add: handleState_def)
  show "handleState (snd (andThen m f c)) = handleState c"
  proof (cases r)
    case (Inl e)
    with mc hs show ?thesis by (simp add: andThen_def)
  next
    case (Inr x)
    with mc hs keepsHandleD [OF assms(2) pc', of x] show ?thesis by (simp add: andThen_def)
  qed
qed

lemma keepsHandle_forEach:
  assumes "\<And>x. keepsHandle (f x)"
  shows "keepsHandle (forEach xs f)"
proof (rule keepsHandleI)
  fix c :: checker
  show "project_cache c \<noteq> None \<Longrightarrow> handleState (snd (forEach xs f c)) = handleState c"
  proof (induction xs arbitrary: c)
    case Nil
    then show ?case by simp
  next
    case (Cons x xs)
    obtain r c' where fc: "f x c = (r, c')" by (cases "f x c")
    with keepsHandleD [OF assms Cons.prems, of x] have hs: "handleState c' = handleState c"
      by simp
    with Cons.prems have "project_cache c' \<noteq> None" by (simp add: handleState_def)
    with fc hs Cons.IH [of c'] show ?case by (cases r) simp_all
  qed
qed

lemma handle_visit [simp]: "handleState (visit v h c) = handleState c"
  by (simp add: visit_def handleState_def)

lemma handle_readLedger [simp]: "\<not> isFetch r \<Longrightarrow> handleState (readLedger r c) = handleState c"
  by (simp add: readLedger_def handleState_def)

lemma handle_fold:
  "(\<And>x c. handleState (f x c) = handleState c) \<Longrightarrow> handleState (fold f xs c) = handleState c"
  by (induction xs arbitrary: c) simp_all

lemma keepsHandle_project: "keepsHandle (project L)"
  by (rule keepsHandleI) (auto simp: project_def)

lemma keepsHandle_pure: "(\<And>c. handleState (g c) = handleState c) \<Longrightarrow> keepsHandle (\<lambda>c. (r, g c))"
  by (rule keepsHandleI) simp

lemma keepsHandle_checkVersion: "keepsHandle (checkVersion v L)"
  unfolding checkVersion_def
  by (intro keepsHandle_andThen keepsHandle_project) (simp add: keepsHandle_def Let_def)

lemma keepsHandle_checkPackage: "keepsHandle (checkPackage v)"
  by (rule keepsHandleI) (auto simp: checkPackage_def Let_def)

lemma keepsHandle_checkProvider: "keepsHandle (checkProvider v)"
  by (rule keepsHandleI) (auto simp: checkProvider_def Let_def)

lemma keepsHandle_checkStdlib: "keepsHandle (checkStdlib v L)"
  unfolding checkStdlib_def
  by (intro keepsHandle_andThen keepsHandle_project) (simp add: keepsHandle_def Let_def)

lemma keepsHandle_fetchOnChainImplementations: "keepsHandle fetchOnChainImplementations"
  by (rule keepsHandleI) (auto simp: fetchOnChainImplementations_def)

lemma keepsHandle_checkImplementationAddress: "keepsHandle (checkImplementationAddress v a b)"
  by (rule keepsHandleI) (simp add: checkImplementationAddress_def Let_def split: option.splits)

lemma keepsHandle_checkImplementationBytecode: "keepsHandle (checkImplementationBytecode v L a b)"
  by (rule keepsHandleI) (simp add: checkImplementationBytecode_def Let_def split: option.splits)

lemma keepsHandle_checkRemoteImplementation: "keepsHandle (checkRemoteImplementation v L info)"
proof (rule keepsHandleI)
  fix c :: checker
  assume pc: "project_cache c \<noteq> None"
  show "handleState (snd (checkRemoteImplementation v L info c)) = handleState c"
  proof (cases "hasContract (networkFile c) (i_alias info)")
    case True
    have "keepsHandle (andThen (checkImplementationAddress v (i_alias info) (i_address info))
                (\<lambda>u. checkImplementationBytecode v L (i_alias info) (i_address info)))"
      by (intro keepsHandle_andThen keepsHandle_checkImplementationAddress
          keepsHandle_checkImplementationBytecode)
    from keepsHandleD [OF this pc] True show ?thesis
      by (simp add: checkRemoteImplementation_def Let_def)
  next
    case False
    with pc show ?thesis by (simp add: checkRemoteImplementation_def Let_def)
  qed
qed

lemma keepsHandle_checkUnregisteredLocalImplementations:
  "keepsHandle (checkUnregisteredLocalImplementations v infos)"
proof (rule keepsHandleI)
  fix c :: checker
  assume pc: "project_cache c \<noteq> None"
  have "keepsHandle (forEach
           (filter (\<lambda>alias. alias \<notin> set (map i_alias infos)) (contractAliases (networkFile c)))
           (\<lambda>alias c.
              case contract (networkFile c) alias of
                None \<Rightarrow> (Inl TypeError, c)
              | Some entry \<Rightarrow>
                  (Inr (),
                   visit v \<lparr>h_method = ''onUnregisteredLocalContract'',
                     h_expected = Str ''one'', h_observed = Str ''none'',
                     h_meta = [(''alias'', alias), (''address'', c_address entry)]\<rparr> c)))"
    by (intro keepsHandle_forEach) (simp add: keepsHandle_def split: option.splits)
  from keepsHandleD [OF this pc] show
    "handleState (snd (checkUnregisteredLocalImplementations v infos c)) = handleState c"
    by (simp add: checkUnregisteredLocalImplementations_def Let_def)
qed

lemma keepsHandle_checkImplementations: "keepsHandle (checkImplementations v L)"
  unfolding checkImplementations_def
  by (intro keepsHandle_andThen keepsHandle_forEach keepsHandle_fetchOnChainImplementations
      keepsHandle_checkRemoteImplementation keepsHandle_checkUnregisteredLocalImplementations)

lemma handle_proxyResolved:
  "handleState (snd (proxyResolved v infos p event acc)) = handleState (snd acc)"
  by (cases acc) (simp add: proxyResolved_def Let_def)

lemma handle_fold_proxyResolved:
  "handleState (snd (fold (proxyResolved v infos p) events acc)) = handleState (snd acc)"
  by (induction events arbitrary: acc) (simp_all add: handle_proxyResolved)

lemma keepsHandle_fetchOnChainProxies: "keepsHandle (fetchOnChainProxies v L)"
  unfolding fetchOnChainProxies_def
proof (intro keepsHandle_andThen keepsHandle_fetchOnChainImplementations keepsHandle_project)
  fix infos p
  show "keepsHandle (\<lambda>c.
       let proxyEvents = factory_events p;
           c1 = readLedger (EventsFilterCall ''ProxyCreated'') c;
           c2 = fold (\<lambda>event. readLedger (GetProxyImplementation (args_proxy event)))
                  proxyEvents c1;
           resolved =
             fold (proxyResolved v infos p)
               (completionOrder (resolution p) proxyEvents) ([], c2)
       in (Inr (fst resolved), snd resolved))"
    by (rule keepsHandleI) (simp add: Let_def handle_fold_proxyResolved handle_fold)
qed

lemma handle_checkRemoteProxy [simp]: "handleState (checkRemoteProxy v info c) = handleState c"
  by (simp add: checkRemoteProxy_def checkProxyAlias_def checkProxyImplementation_def Let_def
      split: option.splits)

lemma handle_checkUnregisteredLocalProxies [simp]:
  "handleState (checkUnregisteredLocalProxies v infos c) = handleState c"
  by (simp add: checkUnregisteredLocalProxies_def Let_def handle_fold)

lemma keepsHandle_checkProxies: "keepsHandle (checkProxies v L)"
  unfolding checkProxies_def
  by (intro keepsHandle_andThen keepsHandle_fetchOnChainProxies keepsHandle_pure)
    (simp add: handle_fold)

lemma keepsHandle_checkApp: "keepsHandle (checkApp v L)"
  unfolding checkApp_def
  by (intro keepsHandle_andThen keepsHandle_checkVersion keepsHandle_checkPackage
      keepsHandle_checkProvider keepsHandle_checkStdlib keepsHandle_checkImplementations
      keepsHandle_checkProxies)

lemma keepsHandle_checkLib: "keepsHandle (checkLib v L)"
  unfolding checkLib_def
  by (intro keepsHandle_andThen keepsHandle_checkProvider keepsHandle_checkImplementations)

lemma keepsHandle_call: "keepsHandle (call v L)"
  unfolding call_def
proof (intro keepsHandle_andThen keepsHandle_project keepsHandle_pure)
  show "keepsHandle (\<lambda>c. if isLib (networkFile c) then checkLib v L c else checkApp v L c)"
    using keepsHandle_checkLib [of v L] keepsHandle_checkApp [of v L]
    by (simp add: keepsHandle_def)
qed simp_all

lemma handle_invoke:
  "project_cache c \<noteq> None \<Longrightarrow> handleState (invoke v Lm c) = handleState c"
proof -
  assume pc: "project_cache c \<noteq> None"
  obtain L m where "Lm = (L, m)" by (cases Lm)
  with pc show ?thesis
    by (cases m)
      (simp_all add: keepsHandleD [OF keepsHandle_project] keepsHandleD [OF keepsHandle_call]
        keepsHandleD [OF keepsHandle_checkApp] keepsHandleD [OF keepsHandle_checkLib]
        keepsHandleD [OF keepsHandle_checkVersion] keepsHandleD [OF keepsHandle_checkPackage]
        keepsHandleD [OF keepsHandle_checkProvider] keepsHandleD [OF keepsHandle_checkStdlib]
        keepsHandleD [OF keepsHandle_checkImplementations]
        keepsHandleD [OF keepsHandle_checkProxies])
qed

lemma handle_invocations:
  "project_cache c \<noteq> None \<Longrightarrow> handleState (fold (invoke v) ms c) = handleState c"
proof (induction ms arbitrary: c)
  case Nil
  then show ?case by simp
next
  case (Cons m ms)
  from handle_invoke [OF Cons.prems, of v m]
  have hs: "handleState (invoke v m c) = handleState c" .
  with Cons.prems have "project_cache (invoke v m c) \<noteq> None" by (simp add: handleState_def)
  from Cons.IH [OF this] hs show ?case by simp
qed

text \<open>
  C10. After the first successful \<^verbatim>\<open>project()\<close> the handle is kept: whatever methods of
  the instance are called afterwards, against whatever ledgers, \<^verbatim>\<open>project()\<close> returns the
  same handle and leaves the instance as it is, and the reads of the ledger hold no
  further fetch; the event log is read again by every \<^verbatim>\<open>_fetchOnChainImplementations\<close>.
\<close>

theorem project_fetched_once:
  "project L c = (Inr p, c1) \<Longrightarrow>
   project_cache c1 = Some p \<and>
   project L' (fold (invoke v) ms c1) = (Inr p, fold (invoke v) ms c1) \<and>
   filter isFetch (reads (fold (invoke v) ms c1)) = filter isFetch (reads c1) \<and>
   (\<exists>infos c3.
      fetchOnChainImplementations (fold (invoke v) ms c1) = (Inr infos, c3) \<and>
      reads c3 = reads (fold (invoke v) ms c1)
        @ [GetCurrentDirectory, EventsFilterCall ''ImplementationChanged''])"
proof -
  assume pr: "project L c = (Inr p, c1)"
  from project_Inr [OF pr] have pc: "project_cache c1 = Some p" by simp
  then have "handleState (fold (invoke v) ms c1) = handleState c1"
    by (intro handle_invocations) simp
  with pc have c2: "project_cache (fold (invoke v) ms c1) = Some p"
    and f: "filter isFetch (reads (fold (invoke v) ms c1)) = filter isFetch (reads c1)"
    by (simp_all add: handleState_def)
  from c2 have "project L' (fold (invoke v) ms c1) = (Inr p, fold (invoke v) ms c1)"
    by (simp add: project_def)
  with pc c2 f show ?thesis
    by (simp add: fetchOnChainImplementations_def readLedger_def)
qed

theorem project_fetched_once_witness:
  "project ledger1 (newChecker networkFile1) =
     (Inr project1, (newChecker networkFile1)\<lparr>project_cache := Some project1,
        reads := [FetchAppProject (Str ''0xApp'')]\<rparr>) \<and>
   fst (project ledgerDown
     (fold (invoke reporting) [(ledgerDown, Call), (ledger1, CheckProxies), (ledgerDown, Project)]
       ((newChecker networkFile1)\<lparr>project_cache := Some project1,
          reads := [FetchAppProject (Str ''0xApp'')]\<rparr>))) = Inr project1 \<and>
   filter isFetch (reads
     (fold (invoke reporting) [(ledgerDown, Call), (ledger1, CheckProxies), (ledgerDown, Project)]
       ((newChecker networkFile1)\<lparr>project_cache := Some project1,
          reads := [FetchAppProject (Str ''0xApp'')]\<rparr>))) = [FetchAppProject (Str ''0xApp'')]"
proof -
  have a: "project ledger1 (newChecker networkFile1) =
     (Inr project1, (newChecker networkFile1)\<lparr>project_cache := Some project1,
        reads := [FetchAppProject (Str ''0xApp'')]\<rparr>)"
    by (simp add: project_def newChecker_def networkFile1_def ledger1_def readLedger_def)
  from project_fetched_once [OF a, of ledgerDown reporting
      "[(ledgerDown, Call), (ledger1, CheckProxies), (ledgerDown, Project)]"] a
  show ?thesis by simp
qed

section \<open>The implementation check\<close>

lemma ran_refl: "ran v P Q c c"
  by (simp add: ran_def)

lemma ran_trans: "ran v P Q c c' \<Longrightarrow> ran v P Q c' c'' \<Longrightarrow> ran v P Q c c''"
  unfolding ran_def
proof (elim conjE exE)
  fix hs hs' rs rs'
  assume a: "project_cache c' = project_cache c" "project_cache c'' = project_cache c'"
    "calls c' = calls c @ hs" "networkFile c' = fold v hs (networkFile c)" "\<forall>h\<in>set hs. P h"
    "reads c' = reads c @ rs" "\<forall>r\<in>set rs. Q r"
    "calls c'' = calls c' @ hs'" "networkFile c'' = fold v hs' (networkFile c')" "\<forall>h\<in>set hs'. P h"
    "reads c'' = reads c' @ rs'" "\<forall>r\<in>set rs'. Q r"
  have 1: "calls c'' = calls c @ (hs @ hs') \<and> networkFile c'' = fold v (hs @ hs') (networkFile c)
      \<and> (\<forall>h\<in>set (hs @ hs'). P h)" using a by auto
  have 2: "reads c'' = reads c @ (rs @ rs') \<and> (\<forall>r\<in>set (rs @ rs'). Q r)" using a by auto
  from a(1,2) have 3: "project_cache c'' = project_cache c" by simp
  from 1 2 3 show "project_cache c'' = project_cache c \<and>
    (\<exists>hs. calls c'' = calls c @ hs \<and> networkFile c'' = fold v hs (networkFile c) \<and> (\<forall>h\<in>set hs. P h)) \<and>
    (\<exists>rs. reads c'' = reads c @ rs \<and> (\<forall>r\<in>set rs. Q r))"
    by blast
qed

lemma ran_mono:
  "ran v P Q c c' \<Longrightarrow> (\<And>h. P h \<Longrightarrow> P' h) \<Longrightarrow> (\<And>r. Q r \<Longrightarrow> Q' r) \<Longrightarrow> ran v P' Q' c c'"
  unfolding ran_def by blast

lemma ran_visit: "P h \<Longrightarrow> ran v P Q c (visit v h c)"
proof -
  assume "P h"
  then have "calls (visit v h c) = calls c @ [h] \<and>
     networkFile (visit v h c) = fold v [h] (networkFile c) \<and> (\<forall>x \<in> set [h]. P x)"
    by (simp add: visit_def)
  then have "\<exists>hs. calls (visit v h c) = calls c @ hs \<and>
     networkFile (visit v h c) = fold v hs (networkFile c) \<and> (\<forall>x \<in> set hs. P x)" by blast
  then show ?thesis by (simp add: ran_def visit_def)
qed

lemma ran_readLedger: "Q r \<Longrightarrow> ran v P Q c (readLedger r c)"
proof -
  assume "Q r"
  then have "\<exists>rs. reads (readLedger r c) = reads c @ rs \<and> (\<forall>x \<in> set rs. Q x)"
    by (simp add: readLedger_def)
  then show ?thesis by (simp add: ran_def readLedger_def)
qed

lemma fold_visitor_other_alias:
  "touchesOwnAlias v \<Longrightarrow> \<forall>h \<in> set hs. \<not> about ''alias'' a h \<Longrightarrow>
     hasContract (fold v hs nf) a = hasContract nf a"
  by (induction hs arbitrary: nf) (simp_all add: touchesOwnAlias_def)

lemma fold_visitor_address_call:
  "touchesOwnAlias v \<Longrightarrow> \<forall>h \<in> set hs. h_method h = ''onMismatchingContractAddress'' \<Longrightarrow>
     hasContract nf a \<Longrightarrow> hasContract (fold v hs nf) a"
  by (induction hs arbitrary: nf) (simp_all add: touchesOwnAlias_def)

lemma networkFile_visit [simp]: "networkFile (visit v h c) = v h (networkFile c)"
  by (simp add: visit_def)

lemma networkFile_readLedger [simp]: "networkFile (readLedger r c) = networkFile c"
  by (simp add: readLedger_def)

lemma hasContract_contract: "hasContract nf a = (\<exists>e. contract nf a = Some e)"
  by (simp add: hasContract_def contract_def)

lemma checkImplementationAddress_ran:
  assumes "contract (networkFile c) alias = Some e"
  shows "\<exists>c'. checkImplementationAddress v alias address c = (Inr (), c') \<and>
     ran v (\<lambda>h. h_method h = ''onMismatchingContractAddress'' \<and> about ''alias'' alias h) isGetCode c c'"
proof (cases "address = c_address e")
  case True
  with assms show ?thesis by (simp add: checkImplementationAddress_def ran_refl)
next
  case False
  let ?h = "\<lparr>h_method = ''onMismatchingContractAddress'',
                      h_expected = Str (c_address e), h_observed = Str address,
                      h_meta = [(''alias'', alias), (''address'', address)]\<rparr>"
  have h: "h_method ?h = ''onMismatchingContractAddress'' \<and> about ''alias'' alias ?h"
    by (simp add: about_def)
  from False assms have "checkImplementationAddress v alias address c = (Inr (), visit v ?h c)"
    by (simp add: checkImplementationAddress_def)
  moreover from h have "ran v (\<lambda>h. h_method h = ''onMismatchingContractAddress'' \<and> about ''alias'' alias h)
     isGetCode c (visit v ?h c)" by (intro ran_visit)
  ultimately show ?thesis by simp
qed

lemma checkImplementationBytecode_ran:
  assumes "contract (networkFile c) alias = Some e"
  shows "\<exists>c'. checkImplementationBytecode v L alias address c = (Inr (), c') \<and>
     ran v (\<lambda>h. h_method h = ''onMismatchingContractBodyBytecode'' \<and> about ''alias'' alias h) isGetCode c c'"
proof (cases "bytecodeDigest_getCode L address = c_bodyBytecodeHash e")
  case True
  with assms show ?thesis
    by (simp add: checkImplementationBytecode_def ran_readLedger)
next
  case False
  let ?h = "\<lparr>h_method = ''onMismatchingContractBodyBytecode'',
                      h_expected = Str (c_bodyBytecodeHash e), h_observed = Str (bytecodeDigest_getCode L address),
                      h_meta = [(''alias'', alias), (''address'', address),
                                (''bodyBytecodeHash'', bytecodeDigest_getCode L address)]\<rparr>"
  let ?P = "\<lambda>h. h_method h = ''onMismatchingContractBodyBytecode'' \<and> about ''alias'' alias h"
  have h: "?P ?h" by (simp add: about_def)
  from False assms have eq: "checkImplementationBytecode v L alias address c =
      (Inr (), visit v ?h (readLedger (GetCode address) c))"
    by (simp add: checkImplementationBytecode_def Let_def)
  have "ran v ?P isGetCode c (readLedger (GetCode address) c)" by (intro ran_readLedger) simp
  moreover from h have "ran v ?P isGetCode (readLedger (GetCode address) c)
      (visit v ?h (readLedger (GetCode address) c))" by (intro ran_visit)
  ultimately have "ran v ?P isGetCode c (visit v ?h (readLedger (GetCode address) c))"
    by (rule ran_trans)
  with eq show ?thesis by simp
qed

lemma checkRemoteImplementation_ran:
  assumes K: "touchesOwnAlias v"
  shows "\<exists>c'. checkRemoteImplementation v L info c = (Inr (), c') \<and>
     ran v (\<lambda>h. implementationCall h \<and> about ''alias'' (i_alias info) h) isGetCode c c'"
proof (cases "hasContract (networkFile c) (i_alias info)")
  case False
  let ?h = "\<lparr>h_method = ''onMissingRemoteContract'', h_expected = Str ''none'',
                 h_observed = Str ''one'',
                 h_meta = [(''alias'', i_alias info), (''address'', i_address info)]\<rparr>"
  have "implementationCall ?h \<and> about ''alias'' (i_alias info) ?h"
    by (simp add: implementationCall_def about_def)
  then have "ran v (\<lambda>h. implementationCall h \<and> about ''alias'' (i_alias info) h) isGetCode c (visit v ?h c)"
    by (intro ran_visit)
  with False show ?thesis by (simp add: checkRemoteImplementation_def Let_def)
next
  case True
  let ?P = "\<lambda>h. implementationCall h \<and> about ''alias'' (i_alias info) h"
  from True obtain e where e: "contract (networkFile c) (i_alias info) = Some e"
    by (auto simp: hasContract_contract)
  from checkImplementationAddress_ran [OF e, of v "i_address info"]
  obtain c1 where c1: "checkImplementationAddress v (i_alias info) (i_address info) c = (Inr (), c1)"
    and r1: "ran v (\<lambda>h. h_method h = ''onMismatchingContractAddress'' \<and>
        about ''alias'' (i_alias info) h) isGetCode c c1" by blast
  from r1 obtain hs where hs: "networkFile c1 = fold v hs (networkFile c)"
      "\<forall>h \<in> set hs. h_method h = ''onMismatchingContractAddress''" unfolding ran_def by blast
  from fold_visitor_address_call [OF K hs(2) True] hs(1)
  have "hasContract (networkFile c1) (i_alias info)" by simp
  then obtain e1 where e1: "contract (networkFile c1) (i_alias info) = Some e1"
    by (auto simp: hasContract_contract)
  from checkImplementationBytecode_ran [OF e1, of v L "i_address info"]
  obtain c2 where c2: "checkImplementationBytecode v L (i_alias info) (i_address info) c1 = (Inr (), c2)"
    and r2: "ran v (\<lambda>h. h_method h = ''onMismatchingContractBodyBytecode'' \<and>
        about ''alias'' (i_alias info) h) isGetCode c1 c2" by blast
  from r1 have "ran v ?P isGetCode c c1" by (rule ran_mono) (simp_all add: implementationCall_def)
  moreover from r2 have "ran v ?P isGetCode c1 c2"
    by (rule ran_mono) (simp_all add: implementationCall_def)
  ultimately have "ran v ?P isGetCode c c2" by (rule ran_trans)
  moreover from True c1 c2 have "checkRemoteImplementation v L info c = (Inr (), c2)"
    by (simp add: checkRemoteImplementation_def Let_def andThen_def)
  ultimately show ?thesis by simp
qed

lemma forEach_append:
  "forEach (xs @ ys) f c =
     (case forEach xs f c of (Inl e, c') \<Rightarrow> (Inl e, c') | (Inr u, c') \<Rightarrow> forEach ys f c')"
  by (induction xs arbitrary: c) (auto split: prod.splits sum.splits)

lemma forEach_checkRemoteImplementation_ran:
  assumes K: "touchesOwnAlias v"
  shows "\<exists>c'. forEach infos (checkRemoteImplementation v L) c = (Inr (), c') \<and>
     ran v (\<lambda>h. implementationCall h \<and> (\<exists>info \<in> set infos. about ''alias'' (i_alias info) h))
       isGetCode c c'"
proof (induction infos arbitrary: c)
  case Nil
  show ?case by (simp add: ran_refl)
next
  case (Cons info infos)
  let ?P = "\<lambda>h. implementationCall h \<and> (\<exists>i \<in> set (info # infos). about ''alias'' (i_alias i) h)"
  from checkRemoteImplementation_ran [OF K, of L info c]
  obtain c1 where c1: "checkRemoteImplementation v L info c = (Inr (), c1)"
    and r1: "ran v (\<lambda>h. implementationCall h \<and> about ''alias'' (i_alias info) h) isGetCode c c1"
    by blast
  from Cons.IH [of c1]
  obtain c2 where c2: "forEach infos (checkRemoteImplementation v L) c1 = (Inr (), c2)"
    and r2: "ran v (\<lambda>h. implementationCall h \<and> (\<exists>i \<in> set infos. about ''alias'' (i_alias i) h))
       isGetCode c1 c2" by blast
  from r1 have "ran v ?P isGetCode c c1" by (rule ran_mono) simp_all
  moreover from r2 have "ran v ?P isGetCode c1 c2" by (rule ran_mono) simp_all
  ultimately have "ran v ?P isGetCode c c2" by (rule ran_trans)
  with c1 c2 show ?case by simp
qed

lemma forEach_unregistered_ran:
  assumes K: "touchesOwnAlias v"
  shows "distinct as \<Longrightarrow> \<forall>a \<in> set as. hasContract (networkFile c) a \<Longrightarrow>
    \<exists>c'. forEach as
           (\<lambda>alias c.
              case contract (networkFile c) alias of
                None \<Rightarrow> (Inl TypeError, c)
              | Some entry \<Rightarrow>
                  (Inr (),
                   visit v \<lparr>h_method = ''onUnregisteredLocalContract'',
                     h_expected = Str ''one'', h_observed = Str ''none'',
                     h_meta = [(''alias'', alias), (''address'', c_address entry)]\<rparr> c))
           c = (Inr (), c') \<and>
      ran v (\<lambda>h. h_method h = ''onUnregisteredLocalContract'' \<and> (\<exists>a \<in> set as. about ''alias'' a h))
        (\<lambda>r. False) c c'"
proof (induction as arbitrary: c)
  case Nil
  show ?case by (simp add: ran_refl)
next
  case (Cons a as)
  let ?P = "\<lambda>h. h_method h = ''onUnregisteredLocalContract'' \<and> (\<exists>x \<in> set (a # as). about ''alias'' x h)"
  from Cons.prems obtain e where e: "contract (networkFile c) a = Some e"
    by (auto simp: hasContract_contract)
  let ?h = "\<lparr>h_method = ''onUnregisteredLocalContract'',
                     h_expected = Str ''one'', h_observed = Str ''none'',
                     h_meta = [(''alias'', a), (''address'', c_address e)]\<rparr>"
  have ha: "about ''alias'' a ?h" by (simp add: about_def)
  have rest: "\<forall>b \<in> set as. hasContract (networkFile (visit v ?h c)) b"
  proof
    fix b
    assume b: "b \<in> set as"
    with Cons.prems have "b \<noteq> a" by auto
    then have "\<not> about ''alias'' b ?h" by (simp add: about_def)
    with K have "hasContract (v ?h (networkFile c)) b = hasContract (networkFile c) b"
      by (simp add: touchesOwnAlias_def)
    with b Cons.prems show "hasContract (networkFile (visit v ?h c)) b" by (simp add: visit_def)
  qed
  from Cons.prems have "distinct as" by simp
  from Cons.IH [OF this rest]
  obtain c2 where c2: "forEach as
           (\<lambda>alias c.
              case contract (networkFile c) alias of
                None \<Rightarrow> (Inl TypeError, c)
              | Some entry \<Rightarrow>
                  (Inr (),
                   visit v \<lparr>h_method = ''onUnregisteredLocalContract'',
                     h_expected = Str ''one'', h_observed = Str ''none'',
                     h_meta = [(''alias'', alias), (''address'', c_address entry)]\<rparr> c))
           (visit v ?h c) = (Inr (), c2)"
    and r2: "ran v (\<lambda>h. h_method h = ''onUnregisteredLocalContract'' \<and> (\<exists>x \<in> set as. about ''alias'' x h))
        (\<lambda>r. False) (visit v ?h c) c2" by blast
  from ha have "ran v ?P (\<lambda>r. False) c (visit v ?h c)" by (intro ran_visit) simp
  moreover from r2 have "ran v ?P (\<lambda>r. False) (visit v ?h c) c2" by (rule ran_mono) simp_all
  ultimately have "ran v ?P (\<lambda>r. False) c c2" by (rule ran_trans)
  with e c2 show ?case by simp
qed

lemma contractAliases_present: "\<forall>a \<in> set (contractAliases nf). hasContract nf a"
  by (auto simp: contractAliases_def hasContract_def map_of_eq_None_iff)

lemma checkUnregisteredLocalImplementations_ran:
  assumes K: "touchesOwnAlias v"
  shows "\<exists>c'. checkUnregisteredLocalImplementations v infos c = (Inr (), c') \<and>
      ran v (\<lambda>h. h_method h = ''onUnregisteredLocalContract'' \<and>
                (\<exists>a. a \<notin> i_alias ` set infos \<and> about ''alias'' a h)) (\<lambda>r. False) c c'"
proof -
  let ?as = "filter (\<lambda>alias. alias \<notin> set (map i_alias infos)) (contractAliases (networkFile c))"
  have d: "distinct ?as" by (simp add: contractAliases_def)
  have p: "\<forall>a \<in> set ?as. hasContract (networkFile c) a"
    using contractAliases_present [of "networkFile c"] by simp
  from forEach_unregistered_ran [OF K d p]
  obtain c' where c': "forEach ?as
           (\<lambda>alias c.
              case contract (networkFile c) alias of
                None \<Rightarrow> (Inl TypeError, c)
              | Some entry \<Rightarrow>
                  (Inr (),
                   visit v \<lparr>h_method = ''onUnregisteredLocalContract'',
                     h_expected = Str ''one'', h_observed = Str ''none'',
                     h_meta = [(''alias'', alias), (''address'', c_address entry)]\<rparr> c))
           c = (Inr (), c')"
    and r: "ran v (\<lambda>h. h_method h = ''onUnregisteredLocalContract'' \<and> (\<exists>a \<in> set ?as. about ''alias'' a h))
        (\<lambda>r. False) c c'" by blast
  from r have "ran v (\<lambda>h. h_method h = ''onUnregisteredLocalContract'' \<and>
                (\<exists>a. a \<notin> i_alias ` set infos \<and> about ''alias'' a h)) (\<lambda>r. False) c c'"
    by (rule ran_mono) auto
  with c' show ?thesis by (simp add: checkUnregisteredLocalImplementations_def Let_def)
qed

lemma fetchOnChainImplementations_ran:
  assumes "project_cache c = Some p"
  shows "\<exists>c'. fetchOnChainImplementations c = (Inr (implementationsOf (directory_events p)), c') \<and>
     ran v (\<lambda>h. False) implementationRead c c'"
proof -
  let ?c1 = "readLedger GetCurrentDirectory c"
  let ?c2 = "readLedger (EventsFilterCall ''ImplementationChanged'') ?c1"
  have "ran v (\<lambda>h. False) implementationRead c ?c1" by (intro ran_readLedger) simp
  moreover have "ran v (\<lambda>h. False) implementationRead ?c1 ?c2" by (intro ran_readLedger) simp
  ultimately have "ran v (\<lambda>h. False) implementationRead c ?c2" by (rule ran_trans)
  with assms show ?thesis by (simp add: fetchOnChainImplementations_def)
qed

lemma checkImplementations_ran:
  assumes K: "touchesOwnAlias v" and pc: "project_cache c = Some p"
  shows "\<exists>c'. checkImplementations v L c = (Inr (), c') \<and>
     ran v implementationCall implementationRead c c'"
proof -
  let ?infos = "implementationsOf (directory_events p)"
  from fetchOnChainImplementations_ran [OF pc, of v]
  obtain c1 where c1: "fetchOnChainImplementations c = (Inr ?infos, c1)"
    and r1: "ran v (\<lambda>h. False) implementationRead c c1" by blast
  from forEach_checkRemoteImplementation_ran [OF K, of ?infos L c1]
  obtain c2 where c2: "forEach ?infos (checkRemoteImplementation v L) c1 = (Inr (), c2)"
    and r2: "ran v (\<lambda>h. implementationCall h \<and> (\<exists>info \<in> set ?infos. about ''alias'' (i_alias info) h))
       isGetCode c1 c2" by blast
  from checkUnregisteredLocalImplementations_ran [OF K, of ?infos c2]
  obtain c3 where c3: "checkUnregisteredLocalImplementations v ?infos c2 = (Inr (), c3)"
    and r3: "ran v (\<lambda>h. h_method h = ''onUnregisteredLocalContract'' \<and>
                (\<exists>a. a \<notin> i_alias ` set ?infos \<and> about ''alias'' a h)) (\<lambda>r. False) c2 c3" by blast
  have getCode: "\<And>r. isGetCode r \<Longrightarrow> implementationRead r"
  proof -
    fix r show "isGetCode r \<Longrightarrow> implementationRead r" by (cases r) simp_all
  qed
  from r1 have "ran v implementationCall implementationRead c c1" by (rule ran_mono) simp_all
  moreover from r2 have "ran v implementationCall implementationRead c1 c2"
    by (rule ran_mono) (simp_all add: getCode)
  moreover from r3 have "ran v implementationCall implementationRead c2 c3"
    by (rule ran_mono) (simp_all add: implementationCall_def)
  ultimately have "ran v implementationCall implementationRead c c3"
    by (blast intro: ran_trans)
  moreover from c1 c2 c3 have "checkImplementations v L c = (Inr (), c3)"
    by (simp add: checkImplementations_def andThen_def)
  ultimately show ?thesis by simp
qed

lemma checkProvider_ran:
  assumes "project_cache c = Some p"
  shows "\<exists>c'. checkProvider v c = (Inr (), c') \<and>
     ran v (\<lambda>h. h_method h = ''onMismatchingProvider'') (\<lambda>r. r = GetCurrentDirectory) c c'"
proof -
  let ?c1 = "readLedger GetCurrentDirectory c"
  let ?h = "\<lparr>h_method = ''onMismatchingProvider'', h_expected = providerAddress (networkFile c),
                      h_observed = Str (directory_address p), h_meta = []\<rparr>"
  let ?P = "\<lambda>h. h_method h = ''onMismatchingProvider''"
  have r1: "ran v ?P (\<lambda>r. r = GetCurrentDirectory) c ?c1" by (intro ran_readLedger) simp
  have "ran v ?P (\<lambda>r. r = GetCurrentDirectory) ?c1 (visit v ?h ?c1)" by (intro ran_visit) simp
  with r1 have r2: "ran v ?P (\<lambda>r. r = GetCurrentDirectory) c (visit v ?h ?c1)" by (rule ran_trans)
  from assms r1 r2 show ?thesis by (simp add: checkProvider_def Let_def)
qed

lemma touchesOwnAlias_reporting: "touchesOwnAlias reporting"
  by (simp add: touchesOwnAlias_def reporting_def)

lemma about_other: "about k b h \<Longrightarrow> a \<noteq> b \<Longrightarrow> \<not> about k a h"
  by (simp add: about_def)

lemma filter_none: "\<forall>x \<in> set xs. \<not> P x \<Longrightarrow> filter P xs = []"
  by (induction xs) simp_all

lemma callsOnlyI:
  "(\<And>c. \<exists>hs. calls (snd (m c)) = calls c @ hs \<and> (\<forall>h \<in> set hs. P h)) \<Longrightarrow> callsOnly P m"
  by (simp add: callsOnly_def)

lemma callsOnlyD:
  "callsOnly P m \<Longrightarrow> \<exists>hs. calls (snd (m c)) = calls c @ hs \<and> (\<forall>h \<in> set hs. P h)"
  by (simp add: callsOnly_def)

lemma callsOnly_mono: "callsOnly P m \<Longrightarrow> (\<And>h. P h \<Longrightarrow> P' h) \<Longrightarrow> callsOnly P' m"
  unfolding callsOnly_def by blast

lemma callsOnly_andThen:
  assumes "callsOnly P m" and "\<And>x. callsOnly P (f x)"
  shows "callsOnly P (andThen m f)"
proof (rule callsOnlyI)
  fix c :: checker
  obtain r c' where mc: "m c = (r, c')" by (cases "m c")
  from callsOnlyD [OF assms(1), of c] mc
  obtain hs where hs: "calls c' = calls c @ hs" "\<forall>h \<in> set hs. P h" by auto
  show "\<exists>hs. calls (snd (andThen m f c)) = calls c @ hs \<and> (\<forall>h \<in> set hs. P h)"
  proof (cases r)
    case (Inl e)
    with mc hs show ?thesis by (simp add: andThen_def)
  next
    case (Inr x)
    from callsOnlyD [OF assms(2), of x c']
    obtain hs' where hs': "calls (snd (f x c')) = calls c' @ hs'" "\<forall>h \<in> set hs'. P h" by blast
    have "calls (snd (andThen m f c)) = calls c @ (hs @ hs')"
      using mc Inr hs(1) hs'(1) by (simp add: andThen_def)
    moreover have "\<forall>h \<in> set (hs @ hs'). P h" using hs(2) hs'(2) by auto
    ultimately show ?thesis by blast
  qed
qed

lemma callsOnly_forEach:
  assumes "\<And>x. callsOnly P (f x)"
  shows "callsOnly P (forEach xs f)"
proof (rule callsOnlyI)
  fix c :: checker
  show "\<exists>hs. calls (snd (forEach xs f c)) = calls c @ hs \<and> (\<forall>h \<in> set hs. P h)"
  proof (induction xs arbitrary: c)
    case Nil
    show ?case by simp
  next
    case (Cons x xs)
    obtain r c' where fc: "f x c = (r, c')" by (cases "f x c")
    from callsOnlyD [OF assms, of x c] fc
    obtain hs where hs: "calls c' = calls c @ hs" "\<forall>h \<in> set hs. P h" by auto
    show ?case
    proof (cases r)
      case (Inl e)
      with fc hs show ?thesis by simp
    next
      case (Inr u)
      from Cons.IH [of c']
      obtain hs' where hs': "calls (snd (forEach xs f c')) = calls c' @ hs'" "\<forall>h \<in> set hs'. P h"
        by blast
      have "calls (snd (forEach (x # xs) f c)) = calls c @ (hs @ hs')"
        using fc Inr hs(1) hs'(1) by simp
      moreover have "\<forall>h \<in> set (hs @ hs'). P h" using hs(2) hs'(2) by auto
      ultimately show ?thesis by blast
    qed
  qed
qed

lemma callsOnly_none:
  "(\<And>c. calls (snd (m c)) = calls c) \<Longrightarrow> callsOnly P m"
  by (rule callsOnlyI) simp

lemma callsOnly_one:
  "(\<And>c. calls (snd (m c)) = calls c \<or> (\<exists>h. P h \<and> calls (snd (m c)) = calls c @ [h])) \<Longrightarrow>
     callsOnly P m"
proof (rule callsOnlyI)
  fix c :: checker
  assume a: "\<And>c. calls (snd (m c)) = calls c \<or> (\<exists>h. P h \<and> calls (snd (m c)) = calls c @ [h])"
  from a [of c] show "\<exists>hs. calls (snd (m c)) = calls c @ hs \<and> (\<forall>h \<in> set hs. P h)"
  proof
    assume "calls (snd (m c)) = calls c"
    then have "calls (snd (m c)) = calls c @ [] \<and> (\<forall>h \<in> set []. P h)" by simp
    then show ?thesis by blast
  next
    assume "\<exists>h. P h \<and> calls (snd (m c)) = calls c @ [h]"
    then obtain h where "P h" "calls (snd (m c)) = calls c @ [h]" by blast
    then have "calls (snd (m c)) = calls c @ [h] \<and> (\<forall>x \<in> set [h]. P x)" by simp
    then show ?thesis by blast
  qed
qed

lemma callsOnly_project: "callsOnly P (project L)"
  by (rule callsOnly_none)
    (auto simp: project_def readLedger_def Let_def split: option.splits sum.splits)

lemma callsOnly_fetchOnChainImplementations: "callsOnly P fetchOnChainImplementations"
  by (rule callsOnly_none)
    (auto simp: fetchOnChainImplementations_def readLedger_def split: option.splits)

lemma callsOnly_checkProvider:
  "callsOnly (\<lambda>h. h_method h = ''onMismatchingProvider'') (checkProvider v)"
  by (rule callsOnly_one)
    (auto simp: checkProvider_def readLedger_def visit_def Let_def split: option.splits)

lemma callsOnly_checkImplementationAddress:
  "callsOnly implementationCall (checkImplementationAddress v a b)"
  by (rule callsOnly_one)
    (auto simp: checkImplementationAddress_def visit_def Let_def implementationCall_def
      split: option.splits)

lemma callsOnly_checkImplementationBytecode:
  "callsOnly implementationCall (checkImplementationBytecode v L a b)"
  by (rule callsOnly_one)
    (auto simp: checkImplementationBytecode_def visit_def readLedger_def Let_def
      implementationCall_def split: option.splits)

lemma callsOnly_checkRemoteImplementation:
  "callsOnly implementationCall (checkRemoteImplementation v L info)"
proof (rule callsOnlyI)
  fix c :: checker
  show "\<exists>hs. calls (snd (checkRemoteImplementation v L info c)) = calls c @ hs \<and>
      (\<forall>h \<in> set hs. implementationCall h)"
  proof (cases "hasContract (networkFile c) (i_alias info)")
    case True
    have "callsOnly implementationCall
        (andThen (checkImplementationAddress v (i_alias info) (i_address info))
                (\<lambda>u. checkImplementationBytecode v L (i_alias info) (i_address info)))"
      by (intro callsOnly_andThen callsOnly_checkImplementationAddress
          callsOnly_checkImplementationBytecode)
    from callsOnlyD [OF this, of c] True show ?thesis
      by (simp add: checkRemoteImplementation_def Let_def)
  next
    case False
    let ?h = "missingRemoteContract info"
    have "calls (snd (checkRemoteImplementation v L info c)) = calls c @ [?h]"
      using False
      by (simp add: checkRemoteImplementation_def Let_def visit_def missingRemoteContract_def)
    moreover have "\<forall>h \<in> set [?h]. implementationCall h"
      by (simp add: implementationCall_def missingRemoteContract_def)
    ultimately show ?thesis by blast
  qed
qed

lemma callsOnly_checkUnregisteredLocalImplementations:
  "callsOnly implementationCall (checkUnregisteredLocalImplementations v infos)"
proof (rule callsOnlyI)
  fix c :: checker
  have "callsOnly implementationCall (forEach
           (filter (\<lambda>alias. alias \<notin> set (map i_alias infos)) (contractAliases (networkFile c)))
           (\<lambda>alias c.
              case contract (networkFile c) alias of
                None \<Rightarrow> (Inl TypeError, c)
              | Some entry \<Rightarrow>
                  (Inr (),
                   visit v \<lparr>h_method = ''onUnregisteredLocalContract'',
                     h_expected = Str ''one'', h_observed = Str ''none'',
                     h_meta = [(''alias'', alias), (''address'', c_address entry)]\<rparr> c)))"
    by (intro callsOnly_forEach callsOnly_one)
      (auto simp: visit_def implementationCall_def split: option.splits)
  from callsOnlyD [OF this, of c] show
    "\<exists>hs. calls (snd (checkUnregisteredLocalImplementations v infos c)) = calls c @ hs \<and>
       (\<forall>h \<in> set hs. implementationCall h)"
    by (simp add: checkUnregisteredLocalImplementations_def Let_def)
qed

lemma callsOnly_checkImplementations: "callsOnly implementationCall (checkImplementations v L)"
  unfolding checkImplementations_def
  by (intro callsOnly_andThen callsOnly_forEach callsOnly_fetchOnChainImplementations
      callsOnly_checkRemoteImplementation callsOnly_checkUnregisteredLocalImplementations)

lemma callsOnly_checkLib:
  "callsOnly (\<lambda>h. h_method h = ''onMismatchingProvider'' \<or> implementationCall h) (checkLib v L)"
  unfolding checkLib_def
proof (intro callsOnly_andThen)
  show "callsOnly (\<lambda>h. h_method h = ''onMismatchingProvider'' \<or> implementationCall h)
      (checkProvider v)"
    using callsOnly_checkProvider [of v] by (rule callsOnly_mono) simp
  show "callsOnly (\<lambda>h. h_method h = ''onMismatchingProvider'' \<or> implementationCall h)
      (checkImplementations v L)" for u :: unit
    using callsOnly_checkImplementations [of v L] by (rule callsOnly_mono) simp
qed

lemma call_library_calls:
  assumes lib: "isLib (networkFile c)"
  shows "\<exists>hs. calls (snd (call v L c)) = calls c @ hs \<and>
     (\<forall>h \<in> set hs. h_method h = ''onMismatchingProvider'' \<or> implementationCall h \<or>
        h = endChecking)"
proof -
  let ?P = "\<lambda>h. h_method h = ''onMismatchingProvider'' \<or> implementationCall h \<or> h = endChecking"
  have lib': "callsOnly ?P (checkLib v L)"
    using callsOnly_checkLib [of v L] by (rule callsOnly_mono) auto
  obtain r c0 where pr: "project L c = (r, c0)" by (cases "project L c")
  from callsOnlyD [OF callsOnly_project [where P = "\<lambda>h. False" and L = L], of c] pr
  have k0: "calls c0 = calls c" by simp
  have n0: "networkFile c0 = networkFile c"
    using pr by (auto simp: project_def readLedger_def Let_def split: option.splits sum.splits if_splits)
  show ?thesis
  proof (cases r)
    case (Inl e)
    with pr k0 show ?thesis by (simp add: call_def andThen_def)
  next
    case (Inr p)
    let ?c0 = "readLedger GetProjectPackage c0"
    obtain r1 c1 where cl: "checkLib v L ?c0 = (r1, c1)" by (cases "checkLib v L ?c0")
    from callsOnlyD [OF lib', of ?c0] cl k0
    obtain hs where hs: "calls c1 = calls c @ hs" "\<forall>h \<in> set hs. ?P h"
      by (auto simp: readLedger_def)
    show ?thesis
    proof (cases r1)
      case (Inl e)
      with pr Inr cl lib n0 hs show ?thesis
        by (simp add: call_def andThen_def readLedger_def)
    next
      case Inr2: (Inr u)
      have "calls (snd (call v L c)) = calls c @ (hs @ [endChecking])"
        using pr Inr cl Inr2 lib n0 hs(1)
        by (simp add: call_def andThen_def readLedger_def visit_def endChecking_def)
      moreover have "\<forall>h \<in> set (hs @ [endChecking]). ?P h" using hs(2) by auto
      ultimately show ?thesis by blast
    qed
  qed
qed

text \<open>
  C7. A run on a library descriptor whose handle is fetched is the provider check, then
  the implementation check, then \<^verbatim>\<open>onEndChecking\<close>, and nothing else. Whether it returns
  or throws, the visitor is called with \<^verbatim>\<open>onMismatchingProvider\<close>, the calls of the
  implementation check and \<^verbatim>\<open>onEndChecking\<close> only: none of the version, package, stdlib
  or proxy checks runs. When the visitor touches only the entry of the alias it is
  called about, both checks return, \<^verbatim>\<open>onEndChecking\<close> is the last call, and the ledger is
  read for the package of the log line, the directory, its \<^verbatim>\<open>ImplementationChanged\<close>
  events and the code of implementations only.
\<close>

theorem call_library_run:
  assumes lib: "isLib (networkFile c)" and pr: "project L c = (Inr p, c0)"
  shows "call v L c =
       andThen (checkProvider v) (\<lambda>u.
       andThen (checkImplementations v L) (\<lambda>u c.
       (Inr (), visit v endChecking c))) (readLedger GetProjectPackage c0) \<and>
     (\<exists>hs. calls (snd (call v L c)) = calls c @ hs \<and>
        (\<forall>h \<in> set hs. h_method h = ''onMismatchingProvider'' \<or> implementationCall h \<or>
           h = endChecking)) \<and>
     (touchesOwnAlias v \<longrightarrow>
        (\<exists>c1 c2 hs rs.
           checkProvider v (readLedger GetProjectPackage c0) = (Inr (), c1) \<and>
           checkImplementations v L c1 = (Inr (), c2) \<and>
           call v L c = (Inr (), visit v endChecking c2) \<and>
           calls (visit v endChecking c2) = calls c @ hs @ [endChecking] \<and>
           (\<forall>h \<in> set hs. h_method h = ''onMismatchingProvider'' \<or> implementationCall h) \<and>
           reads (visit v endChecking c2) = reads c0 @ rs \<and>
           (\<forall>r \<in> set rs. r = GetProjectPackage \<or> implementationRead r)))"
proof (intro conjI impI)
  let ?c0 = "readLedger GetProjectPackage c0"
  from project_Inr [OF pr] have c0: "project_cache c0 = Some p" "networkFile c0 = networkFile c"
      "calls c0 = calls c" by simp_all
  then have pc0: "project_cache ?c0 = Some p" by (simp add: readLedger_def)
  from lib c0 pr show "call v L c =
       andThen (checkProvider v) (\<lambda>u.
       andThen (checkImplementations v L) (\<lambda>u c.
       (Inr (), visit v endChecking c))) ?c0"
    by (simp add: call_def checkLib_def andThen_def endChecking_def
        split: prod.splits sum.splits)
  from call_library_calls [OF lib, of v L]
  show "\<exists>hs. calls (snd (call v L c)) = calls c @ hs \<and>
        (\<forall>h \<in> set hs. h_method h = ''onMismatchingProvider'' \<or> implementationCall h \<or>
           h = endChecking)" .
  assume K: "touchesOwnAlias v"
  let ?P = "\<lambda>h. h_method h = ''onMismatchingProvider'' \<or> implementationCall h"
  let ?Q = "\<lambda>r. r = GetProjectPackage \<or> implementationRead r"
  from checkProvider_ran [OF pc0, of v]
  obtain c1 where c1: "checkProvider v ?c0 = (Inr (), c1)"
    and r1: "ran v (\<lambda>h. h_method h = ''onMismatchingProvider'') (\<lambda>r. r = GetCurrentDirectory) ?c0 c1"
    by blast
  from r1 pc0 have pc1: "project_cache c1 = Some p" by (simp add: ran_def)
  from checkImplementations_ran [OF K pc1, of L]
  obtain c2 where c2: "checkImplementations v L c1 = (Inr (), c2)"
    and r2: "ran v implementationCall implementationRead c1 c2" by blast
  have "ran v ?P ?Q c0 ?c0" by (intro ran_readLedger) simp
  moreover from r1 have "ran v ?P ?Q ?c0 c1" by (rule ran_mono) simp_all
  moreover from r2 have "ran v ?P ?Q c1 c2" by (rule ran_mono) simp_all
  ultimately have "ran v ?P ?Q c0 c2" by (blast intro: ran_trans)
  then obtain hs rs where hs: "calls c2 = calls c0 @ hs" "\<forall>h \<in> set hs. ?P h"
    and rs: "reads c2 = reads c0 @ rs" "\<forall>r \<in> set rs. ?Q r" unfolding ran_def by blast
  from lib c0 c1 c2 have "checkLib v L ?c0 = (Inr (), c2)"
    by (simp add: checkLib_def andThen_def)
  with lib c0 pr have run: "call v L c = (Inr (), visit v endChecking c2)"
    by (simp add: call_def andThen_def endChecking_def)
  from hs c0 have "calls (visit v endChecking c2) = calls c @ hs @ [endChecking]"
    by (simp add: visit_def)
  moreover from rs have "reads (visit v endChecking c2) = reads c0 @ rs" by (simp add: visit_def)
  ultimately show "\<exists>c1 c2 hs rs.
           checkProvider v (readLedger GetProjectPackage c0) = (Inr (), c1) \<and>
           checkImplementations v L c1 = (Inr (), c2) \<and>
           call v L c = (Inr (), visit v endChecking c2) \<and>
           calls (visit v endChecking c2) = calls c @ hs @ [endChecking] \<and>
           (\<forall>h \<in> set hs. h_method h = ''onMismatchingProvider'' \<or> implementationCall h) \<and>
           reads (visit v endChecking c2) = reads c0 @ rs \<and>
           (\<forall>r \<in> set rs. r = GetProjectPackage \<or> implementationRead r)"
    using c1 c2 run hs(2) rs(2) by blast
qed

theorem call_library_run_witness:
  "isLib (networkFile (newChecker networkFileLib)) \<and>
   project ledger1 (newChecker networkFileLib) =
     (Inr project1, (newChecker networkFileLib)\<lparr>project_cache := Some project1,
        reads := [FetchLibProject (Str ''0xPkg'') (Str ''1.0'')]\<rparr>) \<and>
   touchesOwnAlias reporting \<and>
   fst (call reporting ledger1 (newChecker networkFileLib)) = Inr () \<and>
   calls (snd (call reporting ledger1 (newChecker networkFileLib))) =
     [\<lparr>h_method = ''onMismatchingProvider'', h_expected = Undefined,
        h_observed = Str ''0xDir'', h_meta = []\<rparr>,
      \<lparr>h_method = ''onEndChecking'', h_expected = Undefined,
        h_observed = Undefined, h_meta = []\<rparr>]"
proof -
  have a: "isLib (networkFile (newChecker networkFileLib))"
    by (simp add: newChecker_def networkFileLib_def)
  have b: "project ledger1 (newChecker networkFileLib) =
     (Inr project1, (newChecker networkFileLib)\<lparr>project_cache := Some project1,
        reads := [FetchLibProject (Str ''0xPkg'') (Str ''1.0'')]\<rparr>)"
    by (simp add: project_def newChecker_def networkFileLib_def ledger1_def readLedger_def)
  have e: "calls (snd (call reporting ledger1 (newChecker networkFileLib))) =
     [\<lparr>h_method = ''onMismatchingProvider'', h_expected = Undefined,
        h_observed = Str ''0xDir'', h_meta = []\<rparr>,
      \<lparr>h_method = ''onEndChecking'', h_expected = Undefined,
        h_observed = Undefined, h_meta = []\<rparr>]"
    by (simp add: run_defs networkFileLib_def ledger1_def project1_def events1_def)
  from call_library_run [OF a b, of reporting] touchesOwnAlias_reporting
  obtain c2 where "call reporting ledger1 (newChecker networkFileLib)
      = (Inr (), visit reporting endChecking c2)" by blast
  then have f: "fst (call reporting ledger1 (newChecker networkFileLib)) = Inr ()" by simp
  from a b e f touchesOwnAlias_reporting show ?thesis by simp
qed

text \<open>
  C4 as stated names a method the checker never calls. On a ledger that registers
  \<^verbatim>\<open>Token\<close> at \<^verbatim>\<open>0xC\<close> and a descriptor with no contract, the run calls
  \<^verbatim>\<open>onMissingRemoteContract\<close> for \<^verbatim>\<open>Token\<close>, and no call of the run is named
  \<^verbatim>\<open>onUnknownRemoteContract\<close>.
\<close>

theorem onUnknownRemoteContract_counterexample:
  "implementationsOf (directory_events project1)
     = [\<lparr>i_alias = ''Token'', i_address = ''0xC''\<rparr>] \<and>
   \<not> hasContract networkFile4 ''Token'' \<and>
   calls (snd (call reporting ledger1 (newChecker networkFile4))) =
     [\<lparr>h_method = ''onMissingRemoteContract'', h_expected = Str ''none'',
        h_observed = Str ''one'',
        h_meta = [(''alias'', ''Token''), (''address'', ''0xC'')]\<rparr>,
      \<lparr>h_method = ''onEndChecking'', h_expected = Undefined,
        h_observed = Undefined, h_meta = []\<rparr>] \<and>
   filter (\<lambda>h. h_method h = ''onUnknownRemoteContract'')
     (calls (snd (call reporting ledger1 (newChecker networkFile4)))) = []"
  by (simp add: run_defs networkFile4_def ledger1_def project1_def events1_def)

text \<open>
  C4, amended. For an entry of the reconciled set whose alias has no contract entry in
  the descriptor, \<^verbatim>\<open>_checkRemoteImplementation\<close> calls \<^verbatim>\<open>onMissingRemoteContract('none',
  'one', {alias, address})\<close> and does nothing else (no read of the code, no check of the
  address or of the bytecode); and in the whole implementation check, with a visitor
  that touches only the entry of the alias it is called about, that call is the only
  call about this alias.
\<close>

theorem checkImplementations_missing_remote_contract:
  assumes K: "touchesOwnAlias v" and pc: "project_cache c = Some p"
    and mem: "info \<in> set (implementationsOf (directory_events p))"
    and absent: "\<not> hasContract (networkFile c) (i_alias info)"
  shows "checkRemoteImplementation v L info c = (Inr (), visit v (missingRemoteContract info) c) \<and>
    (\<exists>c'. checkImplementations v L c = (Inr (), c') \<and>
       filter (about ''alias'' (i_alias info)) (drop (length (calls c)) (calls c'))
         = [missingRemoteContract info])"
proof -
  let ?a = "i_alias info"
  let ?infos = "implementationsOf (directory_events p)"
  let ?h = "missingRemoteContract info"
  have step: "\<And>c. \<not> hasContract (networkFile c) ?a \<Longrightarrow>
      checkRemoteImplementation v L info c = (Inr (), visit v ?h c)"
    by (simp add: checkRemoteImplementation_def missingRemoteContract_def Let_def)
  from mem obtain xs ys where split: "?infos = xs @ info # ys" by (auto dest: split_list)
  have "distinct (map i_alias ?infos)" by (rule implementationsOf_distinct)
  with split have "?a \<notin> i_alias ` set xs" and "?a \<notin> i_alias ` set ys" by auto
  then have nx: "\<forall>i \<in> set xs. i_alias i \<noteq> ?a" and ny: "\<forall>i \<in> set ys. i_alias i \<noteq> ?a"
    by (metis imageI)+
  from fetchOnChainImplementations_ran [OF pc, of v]
  obtain c1 where c1: "fetchOnChainImplementations c = (Inr ?infos, c1)"
    and r1: "ran v (\<lambda>h. False) implementationRead c c1" by blast
  from r1 have n1: "networkFile c1 = networkFile c" and k1: "calls c1 = calls c"
    unfolding ran_def by auto
  from forEach_checkRemoteImplementation_ran [OF K, of xs L c1]
  obtain c2 where c2: "forEach xs (checkRemoteImplementation v L) c1 = (Inr (), c2)"
    and r2: "ran v (\<lambda>h. implementationCall h \<and> (\<exists>i \<in> set xs. about ''alias'' (i_alias i) h))
       isGetCode c1 c2" by blast
  from r2 obtain hx where hx: "calls c2 = calls c1 @ hx"
      "networkFile c2 = fold v hx (networkFile c1)"
      "\<forall>h \<in> set hx. \<exists>i \<in> set xs. about ''alias'' (i_alias i) h"
    unfolding ran_def by blast
  from hx(3) nx have ox: "\<forall>h \<in> set hx. \<not> about ''alias'' ?a h"
    by (blast dest: about_other)
  from fold_visitor_other_alias [OF K ox] hx(2) n1 absent
  have absent2: "\<not> hasContract (networkFile c2) ?a" by simp
  from step [OF absent2] have c3: "checkRemoteImplementation v L info c2 = (Inr (), visit v ?h c2)" .
  from forEach_checkRemoteImplementation_ran [OF K, of ys L "visit v ?h c2"]
  obtain c4 where c4: "forEach ys (checkRemoteImplementation v L) (visit v ?h c2) = (Inr (), c4)"
    and r4: "ran v (\<lambda>h. implementationCall h \<and> (\<exists>i \<in> set ys. about ''alias'' (i_alias i) h))
       isGetCode (visit v ?h c2) c4" by blast
  from r4 obtain hy where hy: "calls c4 = calls (visit v ?h c2) @ hy"
      "\<forall>h \<in> set hy. \<exists>i \<in> set ys. about ''alias'' (i_alias i) h"
    unfolding ran_def by blast
  from hy(2) ny have oy: "\<forall>h \<in> set hy. \<not> about ''alias'' ?a h"
    by (blast dest: about_other)
  from checkUnregisteredLocalImplementations_ran [OF K, of ?infos c4]
  obtain c5 where c5: "checkUnregisteredLocalImplementations v ?infos c4 = (Inr (), c5)"
    and r5: "ran v (\<lambda>h. h_method h = ''onUnregisteredLocalContract'' \<and>
                (\<exists>a. a \<notin> i_alias ` set ?infos \<and> about ''alias'' a h)) (\<lambda>r. False) c4 c5" by blast
  from r5 obtain hu where hu: "calls c5 = calls c4 @ hu"
      "\<forall>h \<in> set hu. \<exists>a. a \<notin> i_alias ` set ?infos \<and> about ''alias'' a h"
    unfolding ran_def by blast
  from mem have "?a \<in> i_alias ` set ?infos" by (rule imageI)
  with hu(2) have ou: "\<forall>h \<in> set hu. \<not> about ''alias'' ?a h"
    by (metis about_other)
  have each: "forEach ?infos (checkRemoteImplementation v L) c1 = (Inr (), c4)"
    using c2 c3 c4 by (simp add: split forEach_append)
  with c1 c5 have run: "checkImplementations v L c = (Inr (), c5)"
    by (simp add: checkImplementations_def andThen_def)
  have "calls c5 = calls c @ (hx @ [?h] @ hy @ hu)"
    using hx(1) hy(1) hu(1) k1 by (simp add: visit_def)
  then have "drop (length (calls c)) (calls c5) = hx @ [?h] @ hy @ hu" by simp
  moreover have "about ''alias'' ?a ?h" by (simp add: about_def missingRemoteContract_def)
  ultimately have "filter (about ''alias'' ?a) (drop (length (calls c)) (calls c5)) = [?h]"
    using filter_none [OF ox] filter_none [OF oy] filter_none [OF ou] by simp
  with run step [OF absent] show ?thesis by simp
qed

theorem checkImplementations_missing_remote_contract_witness:
  "touchesOwnAlias reporting \<and>
   project_cache ((newChecker networkFile4)\<lparr>project_cache := Some project1\<rparr>) = Some project1 \<and>
   \<lparr>i_alias = ''Token'', i_address = ''0xC''\<rparr> \<in> set (implementationsOf (directory_events project1)) \<and>
   \<not> hasContract (networkFile ((newChecker networkFile4)\<lparr>project_cache := Some project1\<rparr>)) ''Token'' \<and>
   (\<exists>c'. checkImplementations reporting ledger1
           ((newChecker networkFile4)\<lparr>project_cache := Some project1\<rparr>) = (Inr (), c') \<and>
      filter (about ''alias'' ''Token'') (calls c')
        = [\<lparr>h_method = ''onMissingRemoteContract'', h_expected = Str ''none'',
             h_observed = Str ''one'',
             h_meta = [(''alias'', ''Token''), (''address'', ''0xC'')]\<rparr>])"
proof -
  let ?c = "(newChecker networkFile4)\<lparr>project_cache := Some project1\<rparr>"
  let ?info = "\<lparr>i_alias = ''Token'', i_address = ''0xC''\<rparr>"
  have a: "project_cache ?c = Some project1" by simp
  have b: "?info \<in> set (implementationsOf (directory_events project1))"
    by (simp add: implementationsOf_def filter_index_def project1_def events1_def
        ZERO_ADDRESS_def upt_rec)
  have d: "\<not> hasContract (networkFile ?c) (i_alias ?info)"
    by (simp add: newChecker_def networkFile4_def hasContract_def)
  from checkImplementations_missing_remote_contract
    [OF touchesOwnAlias_reporting a b d, of ledger1] a b d touchesOwnAlias_reporting
  show ?thesis by (simp add: newChecker_def missingRemoteContract_def)
qed

section \<open>The proxy check\<close>

lemma proxyResolved_eq:
  "proxyResolved v infos p event (acc, c) =
     (acc @ resolvedEntry infos p event, fold (visit v) (resolvedCalls infos p event) c)"
proof -
  have "\<And>xs :: implementationInfo list. xs \<noteq> [] \<Longrightarrow> length xs \<noteq> Suc 0 \<Longrightarrow> Suc 0 < length xs"
  proof -
    fix xs :: "implementationInfo list"
    show "xs \<noteq> [] \<Longrightarrow> length xs \<noteq> Suc 0 \<Longrightarrow> Suc 0 < length xs" by (cases xs) auto
  qed
  then show ?thesis
    by (simp add: proxyResolved_def resolvedEntry_def resolvedCalls_def matching_def
        multipleProxyImplementations_def unregisteredProxyImplementation_def Let_def)
qed

lemma fold_proxyResolved_eq:
  "fold (proxyResolved v infos p) events (acc, c) =
     (acc @ concat (map (resolvedEntry infos p) events),
      fold (visit v) (concat (map (resolvedCalls infos p) events)) c)"
  by (induction events arbitrary: acc c) (simp_all add: proxyResolved_eq)

lemma calls_fold_visit: "calls (fold (visit v) hs c) = calls c @ hs"
  by (induction hs arbitrary: c) (simp_all add: visit_def)

lemma calls_fold_readLedger: "calls (fold (\<lambda>x. readLedger (f x)) xs c) = calls c"
  by (induction xs arbitrary: c) (simp_all add: readLedger_def)

lemma mset_completionOrder: "mset (completionOrder ks xs) = mset xs"
proof (induction ks xs rule: completionOrder.induct)
  case (1 ks)
  show ?case by simp
next
  case (2 x xs)
  show ?case by simp
next
  case (3 k ks x xs)
  let ?ys = "x # xs"
  let ?i = "k mod length ?ys"
  have i: "?i < length ?ys" by simp
  have "mset ?ys = mset (take ?i ?ys @ ?ys ! ?i # drop (Suc ?i) ?ys)"
    using id_take_nth_drop [OF i] by simp
  then have "mset ?ys = add_mset (?ys ! ?i) (mset (take ?i ?ys @ drop (Suc ?i) ?ys))"
    by simp
  with "3.IH" [of ?i] show ?case by (simp add: Let_def)
qed

lemma filter_completionOrder:
  "length (filter P (completionOrder ks xs)) = length (filter P xs)"
proof -
  have "mset (filter P (completionOrder ks xs)) = mset (filter P xs)"
    by (simp add: mset_completionOrder)
  then show ?thesis by (metis size_mset)
qed

lemma set_completionOrder: "set (completionOrder ks xs) = set xs"
  by (metis mset_completionOrder set_mset_mset)

lemma fetchOnChainProxies_eq:
  assumes "project_cache c = Some p"
  shows "\<exists>c'. fetchOnChainProxies v L c =
       (Inr (concat (map (resolvedEntry (implementationsOf (directory_events p)) p)
               (completionOrder (resolution p) (factory_events p)))), c') \<and>
     calls c' = calls c @ concat (map (resolvedCalls (implementationsOf (directory_events p)) p)
               (completionOrder (resolution p) (factory_events p)))"
  using assms
  by (simp add: fetchOnChainProxies_def andThen_def fetchOnChainImplementations_def project_def
      Let_def fold_proxyResolved_eq calls_fold_visit calls_fold_readLedger readLedger_def)

lemma checkRemoteProxy_calls:
  "\<exists>hs. calls (checkRemoteProxy v info c) = calls c @ hs \<and>
     (\<forall>h \<in> set hs. aliasBasedCall h \<and> about ''address'' (p_address info) h)"
proof (cases "find (\<lambda>proxy. p_address proxy = p_address info) (proxiesList (networkFile c))")
  case None
  let ?m = "\<lparr>h_method = ''onMissingRemoteProxy'', h_expected = Str ''none'',
               h_observed = Str ''one'',
               h_meta = proxyMeta (p_alias info) (p_address info) (p_implementation info)\<rparr>"
  have "calls (checkRemoteProxy v info c) = calls c @ [?m]"
    using None by (simp add: checkRemoteProxy_def visit_def Let_def)
  moreover have "\<forall>h \<in> set [?m]. aliasBasedCall h \<and> about ''address'' (p_address info) h"
    by (simp add: aliasBasedCall_def about_def proxyMeta_def)
  ultimately show ?thesis by blast
next
  case (Some m)
  let ?a = "\<lparr>h_method = ''onMismatchingProxyAlias'', h_expected = Str (p_alias m),
                h_observed = Str (p_alias info),
                h_meta = proxyMeta (p_alias info) (p_address info) (p_implementation info)\<rparr>"
  let ?i = "\<lparr>h_method = ''onMismatchingProxyImplementation'',
                h_expected = Str (p_implementation m), h_observed = Str (p_implementation info),
                h_meta = proxyMeta (p_alias info) (p_address info) (p_implementation info)\<rparr>"
  let ?hs = "(if p_alias info \<noteq> p_alias m then [?a] else [])
             @ (if p_implementation info \<noteq> p_implementation m then [?i] else [])"
  have "calls (checkRemoteProxy v info c) = calls c @ ?hs"
    using Some
    by (simp add: checkRemoteProxy_def checkProxyAlias_def checkProxyImplementation_def
        visit_def Let_def)
  moreover have "\<forall>h \<in> set ?hs. aliasBasedCall h \<and> about ''address'' (p_address info) h"
    by (auto simp: aliasBasedCall_def about_def proxyMeta_def)
  ultimately show ?thesis by blast
qed

lemma fold_checkRemoteProxy_calls:
  "\<exists>hs. calls (fold (checkRemoteProxy v) infos c) = calls c @ hs \<and>
     (\<forall>h \<in> set hs. aliasBasedCall h \<and> (\<exists>info \<in> set infos. about ''address'' (p_address info) h))"
proof (induction infos arbitrary: c)
  case Nil
  show ?case by simp
next
  case (Cons info infos)
  from checkRemoteProxy_calls [of v info c]
  obtain hs1 where 1: "calls (checkRemoteProxy v info c) = calls c @ hs1"
      "\<forall>h \<in> set hs1. aliasBasedCall h \<and> about ''address'' (p_address info) h" by blast
  from Cons.IH [of "checkRemoteProxy v info c"]
  obtain hs2 where 2: "calls (fold (checkRemoteProxy v) infos (checkRemoteProxy v info c))
        = calls (checkRemoteProxy v info c) @ hs2"
      "\<forall>h \<in> set hs2. aliasBasedCall h \<and> (\<exists>i \<in> set infos. about ''address'' (p_address i) h)"
    by blast
  have "calls (fold (checkRemoteProxy v) (info # infos) c) = calls c @ (hs1 @ hs2)"
    using 1(1) 2(1) by simp
  moreover have "\<forall>h \<in> set (hs1 @ hs2). aliasBasedCall h \<and>
      (\<exists>i \<in> set (info # infos). about ''address'' (p_address i) h)"
    using 1(2) 2(2) by auto
  ultimately show ?case by blast
qed

lemma checkUnregisteredLocalProxies_calls:
  "\<exists>hs. calls (checkUnregisteredLocalProxies v infos c) = calls c @ hs \<and>
     (\<forall>h \<in> set hs. h_method h = ''onUnregisteredLocalProxy'')"
proof -
  have "\<And>c. \<exists>hs. calls (fold (\<lambda>proxy.
              visit v \<lparr>h_method = ''onUnregisteredLocalProxy'', h_expected = Str ''one'',
                h_observed = Str ''none'',
                h_meta = proxyMeta (p_alias proxy) (p_address proxy) (p_implementation proxy)\<rparr>)
          ps c) = calls c @ hs \<and> (\<forall>h \<in> set hs. h_method h = ''onUnregisteredLocalProxy'')"
    for ps :: "proxyEntry list"
  proof (induction ps)
    case Nil
    show ?case by simp
  next
    case (Cons x ps)
    let ?h = "\<lparr>h_method = ''onUnregisteredLocalProxy'', h_expected = Str ''one'',
                h_observed = Str ''none'',
                h_meta = proxyMeta (p_alias x) (p_address x) (p_implementation x)\<rparr>"
    from Cons [of "visit v ?h c"]
    obtain hs where hs: "calls (fold (\<lambda>proxy.
              visit v \<lparr>h_method = ''onUnregisteredLocalProxy'', h_expected = Str ''one'',
                h_observed = Str ''none'',
                h_meta = proxyMeta (p_alias proxy) (p_address proxy) (p_implementation proxy)\<rparr>)
          ps (visit v ?h c)) = calls (visit v ?h c) @ hs"
        "\<forall>h \<in> set hs. h_method h = ''onUnregisteredLocalProxy''" by blast
    have "calls (fold (\<lambda>proxy.
              visit v \<lparr>h_method = ''onUnregisteredLocalProxy'', h_expected = Str ''one'',
                h_observed = Str ''none'',
                h_meta = proxyMeta (p_alias proxy) (p_address proxy) (p_implementation proxy)\<rparr>)
          (x # ps) c) = calls c @ (?h # hs)"
      using hs(1) by (simp add: visit_def)
    moreover have "\<forall>h \<in> set (?h # hs). h_method h = ''onUnregisteredLocalProxy''"
      using hs(2) by simp
    ultimately show ?case by blast
  qed
  then show ?thesis by (simp add: checkUnregisteredLocalProxies_def Let_def)
qed

lemma set_resolvedEntry:
  "info \<in> set (concat (map (resolvedEntry infos p) events)) \<Longrightarrow>
     \<exists>e \<in> set events. length (matching infos p (args_proxy e)) = 1 \<and> p_address info = args_proxy e"
  by (auto simp: resolvedEntry_def Let_def split: if_splits)

lemma checkProxies_calls:
  assumes pc: "project_cache c = Some p"
  shows "\<exists>c' hs2 hs3. checkProxies v L c = (Inr (), c') \<and>
     calls c' = calls c
        @ concat (map (resolvedCalls (implementationsOf (directory_events p)) p)
               (completionOrder (resolution p) (factory_events p)))
        @ hs2 @ hs3 \<and>
     (\<forall>h \<in> set hs2. aliasBasedCall h \<and>
        (\<exists>e \<in> set (factory_events p).
           length (matching (implementationsOf (directory_events p)) p (args_proxy e)) = 1 \<and>
           about ''address'' (args_proxy e) h)) \<and>
     (\<forall>h \<in> set hs3. h_method h = ''onUnregisteredLocalProxy'')"
proof -
  let ?infos = "implementationsOf (directory_events p)"
  let ?order = "completionOrder (resolution p) (factory_events p)"
  let ?pi = "concat (map (resolvedEntry ?infos p) ?order)"
  from fetchOnChainProxies_eq [OF pc, of v L]
  obtain c1 where c1: "fetchOnChainProxies v L c = (Inr ?pi, c1)"
    and k1: "calls c1 = calls c @ concat (map (resolvedCalls ?infos p) ?order)" by blast
  from fold_checkRemoteProxy_calls [of v ?pi c1]
  obtain hs2 where 2: "calls (fold (checkRemoteProxy v) ?pi c1) = calls c1 @ hs2"
      "\<forall>h \<in> set hs2. aliasBasedCall h \<and> (\<exists>info \<in> set ?pi. about ''address'' (p_address info) h)"
    by blast
  from checkUnregisteredLocalProxies_calls [of v ?pi "fold (checkRemoteProxy v) ?pi c1"]
  obtain hs3 where 3: "calls (checkUnregisteredLocalProxies v ?pi (fold (checkRemoteProxy v) ?pi c1))
        = calls (fold (checkRemoteProxy v) ?pi c1) @ hs3"
      "\<forall>h \<in> set hs3. h_method h = ''onUnregisteredLocalProxy''" by blast
  have run: "checkProxies v L c =
      (Inr (), checkUnregisteredLocalProxies v ?pi (fold (checkRemoteProxy v) ?pi c1))"
    using c1 by (simp add: checkProxies_def andThen_def)
  have "\<forall>h \<in> set hs2. aliasBasedCall h \<and>
        (\<exists>e \<in> set (factory_events p).
           length (matching ?infos p (args_proxy e)) = 1 \<and> about ''address'' (args_proxy e) h)"
  proof
    fix h
    assume "h \<in> set hs2"
    with 2(2) obtain info where i: "aliasBasedCall h" "info \<in> set ?pi"
        "about ''address'' (p_address info) h" by blast
    from set_resolvedEntry [OF i(2)] obtain e where "e \<in> set ?order"
        "length (matching ?infos p (args_proxy e)) = 1" "p_address info = args_proxy e" by blast
    with i show "aliasBasedCall h \<and>
        (\<exists>e \<in> set (factory_events p).
           length (matching ?infos p (args_proxy e)) = 1 \<and> about ''address'' (args_proxy e) h)"
      by (auto simp: set_completionOrder)
  qed
  moreover have "calls (checkUnregisteredLocalProxies v ?pi (fold (checkRemoteProxy v) ?pi c1))
      = calls c @ concat (map (resolvedCalls ?infos p) ?order) @ hs2 @ hs3"
    using k1 2(1) 3(1) by simp
  ultimately show ?thesis using run 3(2) by blast
qed

lemma filter_concat_replicate:
  "(\<And>x. x \<in> set xs \<Longrightarrow> filter Q (f x) = (if R x then [h] else [])) \<Longrightarrow>
     filter Q (concat (map f xs)) = replicate (length (filter R xs)) h"
  by (induction xs) simp_all

lemma method_unregistered [simp]:
  "h_method (unregisteredProxyImplementation a i) = ''onUnregisteredProxyImplementation''"
  by (simp add: unregisteredProxyImplementation_def)

lemma method_multiple [simp]:
  "h_method (multipleProxyImplementations n i) = ''onMultipleProxyImplementations''"
  by (simp add: multipleProxyImplementations_def)

lemma about_unregistered [simp]:
  "about ''address'' a (unregisteredProxyImplementation b i) = (a = b)"
  by (auto simp: unregisteredProxyImplementation_def about_def)

lemma about_address_multiple [simp]:
  "\<not> about ''address'' a (multipleProxyImplementations n i)"
  by (simp add: multipleProxyImplementations_def about_def)

lemma about_implementation_multiple [simp]:
  "about ''implementation'' i (multipleProxyImplementations n j) = (i = j)"
  by (auto simp: multipleProxyImplementations_def about_def)

lemma aliasBasedCall_method:
  "aliasBasedCall h \<Longrightarrow> h_method h \<noteq> ''onUnregisteredProxyImplementation'' \<and>
     h_method h \<noteq> ''onMultipleProxyImplementations'' \<and> h_method h \<noteq> ''onUnregisteredLocalProxy''"
  by (auto simp: aliasBasedCall_def)

lemma checkVersion_at_most_one:
  "\<exists>hs. calls (snd (checkVersion v L c)) = calls c @ hs \<and> length hs \<le> 1"
proof (cases "project L c")
  case (Pair r c1)
  show ?thesis
  proof (cases r)
    case (Inl e)
    with Pair project_Inl [of L c e c1] show ?thesis
      by (simp add: checkVersion_def andThen_def)
  next
    case (Inr p)
    with Pair project_Inr [of L c p c1] show ?thesis
      by (simp add: checkVersion_def andThen_def Let_def visit_def)
  qed
qed

lemma checkStdlib_at_most_one:
  "\<exists>hs. calls (snd (checkStdlib v L c)) = calls c @ hs \<and> length hs \<le> 1"
proof (cases "project L c")
  case (Pair r c1)
  show ?thesis
  proof (cases r)
    case (Inl e)
    with Pair project_Inl [of L c e c1] show ?thesis
      by (simp add: checkStdlib_def andThen_def)
  next
    case (Inr p)
    with Pair project_Inr [of L c p c1] show ?thesis
      by (simp add: checkStdlib_def andThen_def Let_def visit_def readLedger_def)
  qed
qed

lemma checkPackage_at_most_one:
  "\<exists>hs. calls (snd (checkPackage v c)) = calls c @ hs \<and> length hs \<le> 1"
  by (simp add: checkPackage_def Let_def visit_def split: option.splits)

lemma checkProvider_at_most_one:
  "\<exists>hs. calls (snd (checkProvider v c)) = calls c @ hs \<and> length hs \<le> 1"
  by (simp add: checkProvider_def Let_def visit_def readLedger_def split: option.splits)

text \<open>
  C6. For a \<^verbatim>\<open>ProxyCreated\<close> event whose proxy's current implementation matches no
  entry of the reconciled set, the callback calls \<^verbatim>\<open>onUnregisteredProxyImplementation\<close>
  once and pushes nothing; so in the whole proxy check, whatever the order in which the
  reads resolve, the calls of \<^verbatim>\<open>onUnregisteredProxyImplementation\<close> for that proxy are
  one for each \<^verbatim>\<open>ProxyCreated\<close> event of the proxy, and no call of
  \<^verbatim>\<open>onMissingRemoteProxy\<close>, \<^verbatim>\<open>onMismatchingProxyAlias\<close> or
  \<^verbatim>\<open>onMismatchingProxyImplementation\<close> is about that proxy.
\<close>

theorem checkProxies_unregistered_proxy_implementation:
  assumes pc: "project_cache c = Some p"
    and ev: "event \<in> set (factory_events p)"
    and zero: "matching (implementationsOf (directory_events p)) p (args_proxy event) = []"
  shows "proxyResolved v (implementationsOf (directory_events p)) p event (acc, c0) =
      (acc, visit v (unregisteredProxyImplementation (args_proxy event)
                       (getProxyImplementation p (args_proxy event))) c0) \<and>
    (\<exists>c'. checkProxies v L c = (Inr (), c') \<and>
       filter (\<lambda>h. h_method h = ''onUnregisteredProxyImplementation'' \<and>
                    about ''address'' (args_proxy event) h)
         (drop (length (calls c)) (calls c'))
         = replicate (length (filter (\<lambda>e. args_proxy e = args_proxy event) (factory_events p)))
             (unregisteredProxyImplementation (args_proxy event)
                (getProxyImplementation p (args_proxy event))) \<and>
       0 < length (filter (\<lambda>e. args_proxy e = args_proxy event) (factory_events p)) \<and>
       (\<forall>h \<in> set (drop (length (calls c)) (calls c')).
          about ''address'' (args_proxy event) h \<longrightarrow> \<not> aliasBasedCall h))"
proof -
  let ?infos = "implementationsOf (directory_events p)"
  let ?order = "completionOrder (resolution p) (factory_events p)"
  let ?a = "args_proxy event"
  let ?u = "unregisteredProxyImplementation ?a (getProxyImplementation p ?a)"
  let ?Q = "\<lambda>h. h_method h = ''onUnregisteredProxyImplementation'' \<and> about ''address'' ?a h"
  let ?R = "\<lambda>e. args_proxy e = ?a"
  from zero have step: "proxyResolved v ?infos p event (acc, c0) = (acc, visit v ?u c0)"
    by (simp add: proxyResolved_eq resolvedEntry_def resolvedCalls_def Let_def)
  from checkProxies_calls [OF pc, of v L]
  obtain c' hs2 hs3 where run: "checkProxies v L c = (Inr (), c')"
    and k: "calls c' = calls c @ concat (map (resolvedCalls ?infos p) ?order) @ hs2 @ hs3"
    and h2: "\<forall>h \<in> set hs2. aliasBasedCall h \<and>
        (\<exists>e \<in> set (factory_events p).
           length (matching ?infos p (args_proxy e)) = 1 \<and> about ''address'' (args_proxy e) h)"
    and h3: "\<forall>h \<in> set hs3. h_method h = ''onUnregisteredLocalProxy''" by blast
  let ?hs1 = "concat (map (resolvedCalls ?infos p) ?order)"
  from k have new: "drop (length (calls c)) (calls c') = ?hs1 @ hs2 @ hs3" by simp
  have each: "\<And>e. filter ?Q (resolvedCalls ?infos p e) = (if ?R e then [?u] else [])"
    using zero by (simp add: resolvedCalls_def Let_def)
  have f1: "filter ?Q ?hs1 = replicate (length (filter ?R (factory_events p))) ?u"
    using filter_concat_replicate [of ?order ?Q "resolvedCalls ?infos p" ?R ?u] each
    by (simp add: filter_completionOrder)
  have f2: "filter ?Q hs2 = []"
    using h2 by (intro filter_none) (auto dest: aliasBasedCall_method)
  have f3: "filter ?Q hs3 = []" using h3 by (intro filter_none) auto
  from ev have pos: "0 < length (filter ?R (factory_events p))"
    by (simp add: filter_empty_conv) blast
  have none: "\<forall>h \<in> set (?hs1 @ hs2 @ hs3). about ''address'' ?a h \<longrightarrow> \<not> aliasBasedCall h"
  proof (intro ballI impI)
    fix h
    assume h: "h \<in> set (?hs1 @ hs2 @ hs3)" and ab: "about ''address'' ?a h"
    then consider "h \<in> set ?hs1" | "h \<in> set hs2" | "h \<in> set hs3" by auto
    then show "\<not> aliasBasedCall h"
    proof cases
      case 1
      then obtain e where "h \<in> set (resolvedCalls ?infos p e)" by auto
      then have "h_method h = ''onMultipleProxyImplementations'' \<or>
          h_method h = ''onUnregisteredProxyImplementation''"
        by (auto simp: resolvedCalls_def Let_def split: if_splits)
      then show ?thesis by (auto dest: aliasBasedCall_method)
    next
      case 2
      with h2 obtain e :: proxyCreated where "length (matching ?infos p (args_proxy e)) = 1"
          "about ''address'' (args_proxy e) h" by blast
      with zero have "args_proxy e \<noteq> ?a" by auto
      with \<open>about ''address'' (args_proxy e) h\<close> ab show ?thesis
        by (auto dest: about_other)
    next
      case 3
      with h3 show ?thesis by (auto dest: aliasBasedCall_method)
    qed
  qed
  from run new f1 f2 f3 pos none step show ?thesis by simp
qed

theorem checkProxies_unregistered_proxy_implementation_witness:
  "project_cache ((newChecker networkFile5)\<lparr>project_cache := Some project5\<rparr>) = Some project5 \<and>
   \<lparr>args_proxy = ''0xQ''\<rparr> \<in> set (factory_events project5) \<and>
   matching (implementationsOf (directory_events project5)) project5 ''0xQ'' = [] \<and>
   (\<exists>c'. checkProxies reporting ledger1
            ((newChecker networkFile5)\<lparr>project_cache := Some project5\<rparr>) = (Inr (), c') \<and>
      filter (\<lambda>h. h_method h = ''onUnregisteredProxyImplementation'' \<and> about ''address'' ''0xQ'' h)
        (calls c')
        = [unregisteredProxyImplementation ''0xQ'' ''0xZ''])"
proof -
  let ?c = "(newChecker networkFile5)\<lparr>project_cache := Some project5\<rparr>"
  let ?e = "\<lparr>args_proxy = ''0xQ''\<rparr>"
  have a: "project_cache ?c = Some project5" by simp
  have b: "?e \<in> set (factory_events project5)" by (simp add: project5_def)
  have d: "matching (implementationsOf (directory_events project5)) project5 (args_proxy ?e) = []"
    by (simp add: matching_def implementationsOf_def filter_index_def project5_def events1_def
        ZERO_ADDRESS_def upt_rec)
  have n: "length (filter (\<lambda>e. args_proxy e = args_proxy ?e) (factory_events project5)) = 1"
    by (simp add: project5_def)
  have i: "getProxyImplementation project5 (args_proxy ?e) = ''0xZ''" by (simp add: project5_def)
  from checkProxies_unregistered_proxy_implementation [OF a b d, where v = reporting and L = ledger1 and acc = "[]" and ?c0.0 = ?c]
    a b d n i
  show ?thesis by (auto simp: newChecker_def)
qed

text \<open>
  C2 as stated fails twice in one run of an app. The ledger registers \<^verbatim>\<open>Token\<close> and
  \<^verbatim>\<open>Coin\<close> at \<^verbatim>\<open>0xA\<close>; the descriptor has \<^verbatim>\<open>Token\<close> at \<^verbatim>\<open>0xB\<close> with another digest, and lists
  the proxy \<^verbatim>\<open>0xP\<close>, whose current implementation is \<^verbatim>\<open>0xA\<close>. The alias \<^verbatim>\<open>Token\<close> is
  reported through two methods, and the proxy \<^verbatim>\<open>0xP\<close>, whose implementation matches
  two aliases, is reported by \<^verbatim>\<open>onMultipleProxyImplementations\<close> and then by
  \<^verbatim>\<open>onUnregisteredLocalProxy\<close>.
\<close>

theorem multiple_implementations_counterexample:
  "matching (implementationsOf (directory_events project2)) project2 ''0xP''
     = [\<lparr>i_alias = ''Token'', i_address = ''0xA''\<rparr>, \<lparr>i_alias = ''Coin'', i_address = ''0xA''\<rparr>] \<and>
   fst (call reporting ledger2 (newChecker networkFile2)) = Inr () \<and>
   calls (snd (call reporting ledger2 (newChecker networkFile2))) =
     [\<lparr>h_method = ''onMismatchingContractAddress'', h_expected = Str ''0xB'',
        h_observed = Str ''0xA'', h_meta = [(''alias'', ''Token''), (''address'', ''0xA'')]\<rparr>,
      \<lparr>h_method = ''onMismatchingContractBodyBytecode'', h_expected = Str ''h1'',
        h_observed = Str ''h2'',
        h_meta = [(''alias'', ''Token''), (''address'', ''0xA''), (''bodyBytecodeHash'', ''h2'')]\<rparr>,
      \<lparr>h_method = ''onMultipleProxyImplementations'', h_expected = Str ''one'',
        h_observed = Num 2, h_meta = [(''implementation'', ''0xA'')]\<rparr>,
      \<lparr>h_method = ''onUnregisteredLocalProxy'', h_expected = Str ''one'',
        h_observed = Str ''none'',
        h_meta = [(''alias'', ''Token''), (''address'', ''0xP''), (''implementation'', ''0xA'')]\<rparr>,
      \<lparr>h_method = ''onEndChecking'', h_expected = Undefined, h_observed = Undefined,
        h_meta = []\<rparr>]"
  by (simp add: run_defs matching_def networkFile2_def ledger2_def project2_def)

lemma callsCountI:
  "(\<And>c. \<exists>hs. calls (snd (m c)) = calls c @ hs \<and> length (filter P hs) \<le> n) \<Longrightarrow> callsCount P n m"
  by (simp add: callsCount_def)

lemma callsCountD:
  "callsCount P n m \<Longrightarrow> \<exists>hs. calls (snd (m c)) = calls c @ hs \<and> length (filter P hs) \<le> n"
  by (simp add: callsCount_def)

lemma callsCount_mono: "callsCount P n m \<Longrightarrow> n \<le> n' \<Longrightarrow> callsCount P n' m"
  unfolding callsCount_def by (meson le_trans)

lemma callsCount_andThen:
  assumes "callsCount P n m" and "\<And>x. callsCount P k (f x)"
  shows "callsCount P (n + k) (andThen m f)"
proof (rule callsCountI)
  fix c :: checker
  obtain r c' where mc: "m c = (r, c')" by (cases "m c")
  from callsCountD [OF assms(1), of c] mc
  obtain hs where hs: "calls c' = calls c @ hs" "length (filter P hs) \<le> n" by auto
  show "\<exists>hs. calls (snd (andThen m f c)) = calls c @ hs \<and> length (filter P hs) \<le> n + k"
  proof (cases r)
    case (Inl e)
    with mc hs have "calls (snd (andThen m f c)) = calls c @ hs \<and> length (filter P hs) \<le> n + k"
      by (simp add: andThen_def)
    then show ?thesis by blast
  next
    case (Inr x)
    from callsCountD [OF assms(2), of x c']
    obtain hs' where hs': "calls (snd (f x c')) = calls c' @ hs'" "length (filter P hs') \<le> k"
      by blast
    have "calls (snd (andThen m f c)) = calls c @ (hs @ hs')"
      using mc Inr hs(1) hs'(1) by (simp add: andThen_def)
    moreover have "length (filter P (hs @ hs')) \<le> n + k" using hs(2) hs'(2) by simp
    ultimately show ?thesis by blast
  qed
qed

lemma callsCount_callsOnly:
  assumes "callsOnly Q m" and "\<And>h. Q h \<Longrightarrow> \<not> P h"
  shows "callsCount P 0 m"
proof (rule callsCountI)
  fix c :: checker
  from callsOnlyD [OF assms(1), of c]
  obtain hs where hs: "calls (snd (m c)) = calls c @ hs" "\<forall>h \<in> set hs. Q h" by blast
  from hs(2) assms(2) have "filter P hs = []" by (intro filter_none) blast
  with hs(1) show "\<exists>hs. calls (snd (m c)) = calls c @ hs \<and> length (filter P hs) \<le> 0" by auto
qed

lemma callsCount_at_most_one:
  assumes "\<And>c. \<exists>hs. calls (snd (m c)) = calls c @ hs \<and> length hs \<le> 1"
  shows "callsCount P 1 m"
proof (rule callsCountI)
  fix c :: checker
  from assms [of c] obtain hs where hs: "calls (snd (m c)) = calls c @ hs" "length hs \<le> 1"
    by blast
  have "length (filter P hs) \<le> length hs" by simp
  with hs show "\<exists>hs. calls (snd (m c)) = calls c @ hs \<and> length (filter P hs) \<le> 1"
    by (meson le_trans)
qed

lemma callsOnly_checkVersion:
  "callsOnly (\<lambda>h. h_method h = ''onMismatchingVersion'') (checkVersion v L)"
  unfolding checkVersion_def
  by (intro callsOnly_andThen callsOnly_project callsOnly_one) (simp add: Let_def visit_def)

lemma callsOnly_checkPackage:
  "callsOnly (\<lambda>h. h_method h = ''onMismatchingPackage'') (checkPackage v)"
  by (rule callsOnly_one)
    (auto simp: checkPackage_def visit_def Let_def split: option.splits)

lemma callsOnly_checkStdlib:
  "callsOnly (\<lambda>h. h_method h = ''onMismatchingStdlib'') (checkStdlib v L)"
  unfolding checkStdlib_def
  by (intro callsOnly_andThen callsOnly_project callsOnly_one)
    (simp add: Let_def visit_def readLedger_def)

lemma callsOnly_fetchOnChainProxies: "callsOnly proxyCall (fetchOnChainProxies v L)"
  unfolding fetchOnChainProxies_def
proof (intro callsOnly_andThen callsOnly_fetchOnChainImplementations callsOnly_project)
  fix infos p
  show "callsOnly proxyCall (\<lambda>c.
       let proxyEvents = factory_events p;
           c1 = readLedger (EventsFilterCall ''ProxyCreated'') c;
           c2 = fold (\<lambda>event. readLedger (GetProxyImplementation (args_proxy event)))
                  proxyEvents c1;
           resolved =
             fold (proxyResolved v infos p)
               (completionOrder (resolution p) proxyEvents) ([], c2)
       in (Inr (fst resolved), snd resolved))"
  proof (rule callsOnlyI)
    fix c :: checker
    let ?hs = "concat (map (resolvedCalls infos p) (completionOrder (resolution p) (factory_events p)))"
    have "\<forall>h \<in> set ?hs. proxyCall h"
      by (auto simp: resolvedCalls_def proxyCall_def Let_def split: if_splits)
    moreover have "calls (snd (let proxyEvents = factory_events p;
           c1 = readLedger (EventsFilterCall ''ProxyCreated'') c;
           c2 = fold (\<lambda>event. readLedger (GetProxyImplementation (args_proxy event)))
                  proxyEvents c1;
           resolved =
             fold (proxyResolved v infos p)
               (completionOrder (resolution p) proxyEvents) ([], c2)
       in (Inr (fst resolved), snd resolved))) = calls c @ ?hs"
      by (simp add: Let_def fold_proxyResolved_eq calls_fold_visit calls_fold_readLedger
          readLedger_def)
    ultimately show "\<exists>hs. calls (snd (let proxyEvents = factory_events p;
           c1 = readLedger (EventsFilterCall ''ProxyCreated'') c;
           c2 = fold (\<lambda>event. readLedger (GetProxyImplementation (args_proxy event)))
                  proxyEvents c1;
           resolved =
             fold (proxyResolved v infos p)
               (completionOrder (resolution p) proxyEvents) ([], c2)
       in (Inr (fst resolved), snd resolved))) = calls c @ hs \<and> (\<forall>h \<in> set hs. proxyCall h)"
      by blast
  qed
qed

lemma callsOnly_checkProxies: "callsOnly proxyCall (checkProxies v L)"
  unfolding checkProxies_def
proof (intro callsOnly_andThen callsOnly_fetchOnChainProxies)
  fix proxiesInfo
  show "callsOnly proxyCall (\<lambda>c. (Inr (), checkUnregisteredLocalProxies v proxiesInfo
                  (fold (checkRemoteProxy v) proxiesInfo c)))"
  proof (rule callsOnlyI)
    fix c :: checker
    from fold_checkRemoteProxy_calls [of v proxiesInfo c]
    obtain hs2 where 2: "calls (fold (checkRemoteProxy v) proxiesInfo c) = calls c @ hs2"
        "\<forall>h \<in> set hs2. aliasBasedCall h" by blast
    from checkUnregisteredLocalProxies_calls [of v proxiesInfo "fold (checkRemoteProxy v) proxiesInfo c"]
    obtain hs3 where 3: "calls (checkUnregisteredLocalProxies v proxiesInfo
          (fold (checkRemoteProxy v) proxiesInfo c))
        = calls (fold (checkRemoteProxy v) proxiesInfo c) @ hs3"
        "\<forall>h \<in> set hs3. h_method h = ''onUnregisteredLocalProxy''" by blast
    have "calls (snd (Inr (), checkUnregisteredLocalProxies v proxiesInfo
          (fold (checkRemoteProxy v) proxiesInfo c))) = calls c @ (hs2 @ hs3)"
      using 2(1) 3(1) by simp
    moreover have "\<forall>h \<in> set (hs2 @ hs3). proxyCall h"
      using 2(2) 3(2) by (auto simp: proxyCall_def)
    ultimately show "\<exists>hs. calls (snd (Inr (), checkUnregisteredLocalProxies v proxiesInfo
          (fold (checkRemoteProxy v) proxiesInfo c))) = calls c @ hs \<and> (\<forall>h \<in> set hs. proxyCall h)"
      by blast
  qed
qed

lemma callsCount_named:
  assumes "callsOnly (\<lambda>h. h_method h = name) act"
    and "\<And>c. \<exists>hs. calls (snd (act c)) = calls c @ hs \<and> length hs \<le> 1"
  shows "callsCount (\<lambda>h. h_method h = m) (if m = name then 1 else 0) act"
proof (cases "m = name")
  case True
  with callsCount_at_most_one [of act "\<lambda>h. h_method h = m"] assms(2) show ?thesis by simp
next
  case False
  with callsCount_callsOnly [OF assms(1), of "\<lambda>h. h_method h = m"] show ?thesis by simp
qed

lemma callsCount_checkApp:
  assumes m: "m \<in> {''onMismatchingVersion'', ''onMismatchingPackage'',
                  ''onMismatchingProvider'', ''onMismatchingStdlib''}"
  shows "callsCount (\<lambda>h. h_method h = m) 1 (checkApp v L)"
proof -
  let ?P = "\<lambda>h. h_method h = m"
  let ?n = "\<lambda>name. if m = name then 1 else (0::nat)"
  have ni: "\<And>h. implementationCall h \<Longrightarrow> \<not> ?P h"
    using m by (auto simp: implementationCall_def)
  have np: "\<And>h. proxyCall h \<Longrightarrow> \<not> ?P h"
    using m by (auto simp: proxyCall_def aliasBasedCall_def)
  have v: "callsCount ?P (?n ''onMismatchingVersion'') (checkVersion v L)"
    by (rule callsCount_named [OF callsOnly_checkVersion checkVersion_at_most_one])
  have p: "callsCount ?P (?n ''onMismatchingPackage'') (checkPackage v)"
    by (rule callsCount_named [OF callsOnly_checkPackage checkPackage_at_most_one])
  have d: "callsCount ?P (?n ''onMismatchingProvider'') (checkProvider v)"
    by (rule callsCount_named [OF callsOnly_checkProvider checkProvider_at_most_one])
  have s: "callsCount ?P (?n ''onMismatchingStdlib'') (checkStdlib v L)"
    by (rule callsCount_named [OF callsOnly_checkStdlib checkStdlib_at_most_one])
  have i: "callsCount ?P 0 (checkImplementations v L)"
    using callsOnly_checkImplementations
    by (rule callsCount_callsOnly) (rule ni)
  have x: "callsCount ?P 0 (checkProxies v L)"
    using callsOnly_checkProxies
    by (rule callsCount_callsOnly) (rule np)
  have "callsCount ?P (?n ''onMismatchingVersion'' + (?n ''onMismatchingPackage'' +
      (?n ''onMismatchingProvider'' + (?n ''onMismatchingStdlib'' + (0 + 0))))) (checkApp v L)"
    unfolding checkApp_def
    by (intro callsCount_andThen v p d s i x)
  moreover have "?n ''onMismatchingVersion'' + (?n ''onMismatchingPackage'' +
      (?n ''onMismatchingProvider'' + (?n ''onMismatchingStdlib'' + (0 + 0)))) \<le> 1"
    using m by auto
  ultimately show ?thesis by (rule callsCount_mono)
qed

lemma callsCount_checkLib:
  assumes m: "m \<in> {''onMismatchingVersion'', ''onMismatchingPackage'',
                  ''onMismatchingProvider'', ''onMismatchingStdlib''}"
  shows "callsCount (\<lambda>h. h_method h = m) 1 (checkLib v L)"
proof -
  let ?P = "\<lambda>h. h_method h = m"
  have ni: "\<And>h. implementationCall h \<Longrightarrow> \<not> ?P h"
    using m by (auto simp: implementationCall_def)
  have np: "\<And>h. proxyCall h \<Longrightarrow> \<not> ?P h"
    using m by (auto simp: proxyCall_def aliasBasedCall_def)
  have d: "callsCount ?P 1 (checkProvider v)"
    by (rule callsCount_at_most_one) (rule checkProvider_at_most_one)
  have i: "callsCount ?P 0 (checkImplementations v L)"
    using callsOnly_checkImplementations
    by (rule callsCount_callsOnly) (rule ni)
  have "callsCount ?P (1 + 0) (checkLib v L)"
    unfolding checkLib_def by (intro callsCount_andThen d i)
  then show ?thesis by simp
qed

lemma callsCount_call:
  assumes m: "m \<in> {''onMismatchingVersion'', ''onMismatchingPackage'',
                  ''onMismatchingProvider'', ''onMismatchingStdlib''}"
  shows "callsCount (\<lambda>h. h_method h = m) 1 (call v L)"
proof -
  let ?P = "\<lambda>h. h_method h = m"
  have pr: "callsCount ?P 0 (project L)"
    using callsOnly_project [of "\<lambda>h. False" L] by (rule callsCount_callsOnly) simp
  have rd: "callsCount ?P 0 (\<lambda>c. (Inr (), readLedger GetProjectPackage c))"
    by (rule callsCountI) (simp add: readLedger_def)
  have br: "callsCount ?P 1 (\<lambda>c. if isLib (networkFile c) then checkLib v L c else checkApp v L c)"
    using callsCount_checkLib [OF m, of v L] callsCount_checkApp [OF m, of v L]
    by (simp add: callsCount_def)
  have en: "callsCount ?P 0 (\<lambda>c. (Inr (),
      visit v \<lparr>h_method = ''onEndChecking'', h_expected = Undefined,
        h_observed = Undefined, h_meta = []\<rparr> c))"
  proof (rule callsCountI)
    fix c :: checker
    let ?e = "\<lparr>h_method = ''onEndChecking'', h_expected = Undefined,
        h_observed = Undefined, h_meta = []\<rparr>"
    have "calls (snd (Inr (), visit v ?e c)) = calls c @ [?e]" by (simp add: visit_def)
    moreover have "length (filter ?P [?e]) \<le> 0" using m by auto
    ultimately show "\<exists>hs. calls (snd (Inr (), visit v ?e c)) = calls c @ hs \<and>
        length (filter ?P hs) \<le> 0" by blast
  qed
  have "callsCount ?P (0 + (0 + (1 + 0))) (call v L)"
    unfolding call_def by (intro callsCount_andThen pr rd br en)
  then show ?thesis by simp
qed

lemma checkVersion_ran:
  assumes "project_cache c = Some p"
  shows "\<exists>c'. checkVersion v L c = (Inr (), c') \<and> ran v scalarCall (\<lambda>r. True) c c'"
proof -
  let ?h = "\<lparr>h_method = ''onMismatchingVersion'', h_expected = version (networkFile c),
              h_observed = Str (project_version p), h_meta = []\<rparr>"
  have "ran v scalarCall (\<lambda>r. True) c (visit v ?h c)"
    by (intro ran_visit) (simp add: scalarCall_def)
  with assms show ?thesis
    by (simp add: checkVersion_def andThen_def project_def Let_def ran_refl)
qed

lemma checkPackage_ran:
  assumes "project_cache c = Some p"
  shows "\<exists>c'. checkPackage v c = (Inr (), c') \<and> ran v scalarCall (\<lambda>r. True) c c'"
proof -
  let ?h = "\<lparr>h_method = ''onMismatchingPackage'', h_expected = packageAddress (networkFile c),
              h_observed = Str (package_address p), h_meta = []\<rparr>"
  have "ran v scalarCall (\<lambda>r. True) c (visit v ?h c)"
    by (intro ran_visit) (simp add: scalarCall_def)
  with assms show ?thesis
    by (simp add: checkPackage_def Let_def ran_refl)
qed

lemma checkStdlib_ran:
  assumes "project_cache c = Some p"
  shows "\<exists>c'. checkStdlib v L c = (Inr (), c') \<and> ran v scalarCall (\<lambda>r. True) c c'"
proof -
  let ?c1 = "readLedger CurrentStdlib c"
  let ?o = "if currentStdlib p = ZERO_ADDRESS then Str ''none'' else Str (currentStdlib p)"
  let ?h = "\<lparr>h_method = ''onMismatchingStdlib'',
              h_expected = js_or (stdlibAddress (networkFile c)) (Str ''none''),
              h_observed = ?o, h_meta = []\<rparr>"
  have r1: "ran v scalarCall (\<lambda>r. True) c ?c1" by (intro ran_readLedger) simp
  have "ran v scalarCall (\<lambda>r. True) ?c1 (visit v ?h ?c1)"
    by (intro ran_visit) (simp add: scalarCall_def)
  with r1 have r2: "ran v scalarCall (\<lambda>r. True) c (visit v ?h ?c1)" by (rule ran_trans)
  from assms r1 r2 show ?thesis
    by (simp add: checkStdlib_def andThen_def project_def Let_def)
qed

lemma ran_cache: "ran v P Q c c' \<Longrightarrow> project_cache c' = project_cache c"
  by (simp add: ran_def)

lemma checkApp_before_proxies:
  assumes K: "touchesOwnAlias v" and pc: "project_cache c = Some p"
  shows "\<exists>c5. checkApp v L c = checkProxies v L c5 \<and> project_cache c5 = Some p \<and>
     (\<exists>hs. calls c5 = calls c @ hs \<and> (\<forall>h \<in> set hs. scalarCall h \<or> implementationCall h))"
proof -
  let ?P = "\<lambda>h. scalarCall h \<or> implementationCall h"
  from checkVersion_ran [OF pc, of v L]
  obtain c1 where c1: "checkVersion v L c = (Inr (), c1)"
    and r1: "ran v scalarCall (\<lambda>r. True) c c1" by blast
  from ran_cache [OF r1] pc have pc1: "project_cache c1 = Some p" by simp
  from checkPackage_ran [OF pc1, of v]
  obtain c2 where c2: "checkPackage v c1 = (Inr (), c2)"
    and r2: "ran v scalarCall (\<lambda>r. True) c1 c2" by blast
  from ran_cache [OF r2] pc1 have pc2: "project_cache c2 = Some p" by simp
  from checkProvider_ran [OF pc2, of v]
  obtain c3 where c3: "checkProvider v c2 = (Inr (), c3)"
    and r3: "ran v (\<lambda>h. h_method h = ''onMismatchingProvider'') (\<lambda>r. r = GetCurrentDirectory) c2 c3"
    by blast
  from ran_cache [OF r3] pc2 have pc3: "project_cache c3 = Some p" by simp
  from checkStdlib_ran [OF pc3, of v L]
  obtain c4 where c4: "checkStdlib v L c3 = (Inr (), c4)"
    and r4: "ran v scalarCall (\<lambda>r. True) c3 c4" by blast
  from ran_cache [OF r4] pc3 have pc4: "project_cache c4 = Some p" by simp
  from checkImplementations_ran [OF K pc4, of L]
  obtain c5 where c5: "checkImplementations v L c4 = (Inr (), c5)"
    and r5: "ran v implementationCall implementationRead c4 c5" by blast
  from ran_cache [OF r5] pc4 have pc5: "project_cache c5 = Some p" by simp
  from r1 have "ran v ?P (\<lambda>r. True) c c1" by (rule ran_mono) simp_all
  moreover from r2 have "ran v ?P (\<lambda>r. True) c1 c2" by (rule ran_mono) simp_all
  moreover from r3 have "ran v ?P (\<lambda>r. True) c2 c3"
    by (rule ran_mono) (simp_all add: scalarCall_def)
  moreover from r4 have "ran v ?P (\<lambda>r. True) c3 c4" by (rule ran_mono) simp_all
  moreover from r5 have "ran v ?P (\<lambda>r. True) c4 c5" by (rule ran_mono) simp_all
  ultimately have "ran v ?P (\<lambda>r. True) c c5" by (blast intro: ran_trans)
  then obtain hs where "calls c5 = calls c @ hs" "\<forall>h \<in> set hs. ?P h" unfolding ran_def by blast
  moreover from c1 c2 c3 c4 c5 have "checkApp v L c = checkProxies v L c5"
    by (simp add: checkApp_def andThen_def)
  ultimately show ?thesis using pc5 by blast
qed

lemma checkProxies_multiple:
  assumes pc: "project_cache c = Some p"
    and multi: "1 < length (matching (implementationsOf (directory_events p)) p (args_proxy event))"
  shows "\<exists>c'. checkProxies v L c = (Inr (), c') \<and>
       (\<exists>hs. calls c' = calls c @ hs \<and>
       filter (\<lambda>h. h_method h = ''onMultipleProxyImplementations'' \<and>
                    about ''implementation'' (getProxyImplementation p (args_proxy event)) h) hs
         = replicate (length (filter (\<lambda>e. getProxyImplementation p (args_proxy e)
                                           = getProxyImplementation p (args_proxy event))
                                (factory_events p)))
             (multipleProxyImplementations
                (length (matching (implementationsOf (directory_events p)) p (args_proxy event)))
                (getProxyImplementation p (args_proxy event))) \<and>
       (\<forall>h \<in> set hs.
          about ''address'' (args_proxy event) h \<longrightarrow>
            \<not> aliasBasedCall h \<and> h_method h \<noteq> ''onUnregisteredProxyImplementation''))"
proof -
  let ?infos = "implementationsOf (directory_events p)"
  let ?order = "completionOrder (resolution p) (factory_events p)"
  let ?a = "args_proxy event"
  let ?i = "getProxyImplementation p ?a"
  let ?n = "length (matching ?infos p ?a)"
  let ?m = "multipleProxyImplementations ?n ?i"
  let ?Q = "\<lambda>h. h_method h = ''onMultipleProxyImplementations'' \<and> about ''implementation'' ?i h"
  let ?R = "\<lambda>e. getProxyImplementation p (args_proxy e) = ?i"
  from checkProxies_calls [OF pc, of v L]
  obtain c' hs2 hs3 where run: "checkProxies v L c = (Inr (), c')"
    and k: "calls c' = calls c @ concat (map (resolvedCalls ?infos p) ?order) @ hs2 @ hs3"
    and h2: "\<forall>h \<in> set hs2. aliasBasedCall h \<and>
        (\<exists>e \<in> set (factory_events p).
           length (matching ?infos p (args_proxy e)) = 1 \<and> about ''address'' (args_proxy e) h)"
    and h3: "\<forall>h \<in> set hs3. h_method h = ''onUnregisteredLocalProxy''" by blast
  let ?hs1 = "concat (map (resolvedCalls ?infos p) ?order)"
  have same: "\<And>e. ?R e \<Longrightarrow> matching ?infos p (args_proxy e) = matching ?infos p ?a"
    by (simp add: matching_def)
  have each: "\<And>e. filter ?Q (resolvedCalls ?infos p e) = (if ?R e then [?m] else [])"
  proof -
    fix e
    show "filter ?Q (resolvedCalls ?infos p e) = (if ?R e then [?m] else [])"
    proof (cases "?R e")
      case True
      with same [OF True] multi show ?thesis by (simp add: resolvedCalls_def Let_def)
    next
      case False
      then show ?thesis by (auto simp: resolvedCalls_def Let_def)
    qed
  qed
  have f1: "filter ?Q ?hs1 = replicate (length (filter ?R (factory_events p))) ?m"
    using filter_concat_replicate [of ?order ?Q "resolvedCalls ?infos p" ?R ?m] each
    by (simp add: filter_completionOrder)
  have f2: "filter ?Q hs2 = []"
    using h2 by (intro filter_none) (auto dest: aliasBasedCall_method)
  have f3: "filter ?Q hs3 = []" using h3 by (intro filter_none) auto
  have none: "\<forall>h \<in> set (?hs1 @ hs2 @ hs3). about ''address'' ?a h \<longrightarrow>
      \<not> aliasBasedCall h \<and> h_method h \<noteq> ''onUnregisteredProxyImplementation''"
  proof (intro ballI impI)
    fix h
    assume h: "h \<in> set (?hs1 @ hs2 @ hs3)" and ab: "about ''address'' ?a h"
    then consider "h \<in> set ?hs1" | "h \<in> set hs2" | "h \<in> set hs3" by auto
    then show "\<not> aliasBasedCall h \<and> h_method h \<noteq> ''onUnregisteredProxyImplementation''"
    proof cases
      case 1
      then obtain e where e: "h \<in> set (resolvedCalls ?infos p e)" by auto
      show ?thesis
      proof (cases "args_proxy e = ?a")
        case True
        with e multi have "h = ?m" by (simp add: resolvedCalls_def Let_def)
        with ab show ?thesis by simp
      next
        case False
        with e ab show ?thesis
          by (auto simp: resolvedCalls_def Let_def split: if_splits)
      qed
    next
      case 2
      with h2 obtain e :: proxyCreated where "length (matching ?infos p (args_proxy e)) = 1"
          "about ''address'' (args_proxy e) h" by blast
      with multi have "args_proxy e \<noteq> ?a" by auto
      with \<open>about ''address'' (args_proxy e) h\<close> ab show ?thesis
        by (auto dest: about_other)
    next
      case 3
      with h3 show ?thesis by (auto dest: aliasBasedCall_method)
    qed
  qed
  have "calls c' = calls c @ (?hs1 @ hs2 @ hs3)" using k by simp
  moreover have "filter ?Q (?hs1 @ hs2 @ hs3) = replicate (length (filter ?R (factory_events p))) ?m"
    using f1 f2 f3 by simp
  ultimately show ?thesis using run none by blast
qed

text \<open>
  C2, amended. In every run, whether it returns or throws, each scalar field (version,
  package, provider, stdlib) is reported by at most one call of its method. In a run on
  an app descriptor whose handle is fetched, with a visitor that touches only the entry
  of the alias it is called about: for a \<^verbatim>\<open>ProxyCreated\<close> event whose proxy's current
  implementation matches more than one entry of the reconciled set, the callback calls
  \<^verbatim>\<open>onMultipleProxyImplementations\<close> once and pushes nothing; the run returns, its calls
  of \<^verbatim>\<open>onMultipleProxyImplementations\<close> for that implementation are one for each
  \<^verbatim>\<open>ProxyCreated\<close> event whose proxy resolves to it, and no call of
  \<^verbatim>\<open>onUnregisteredProxyImplementation\<close>, \<^verbatim>\<open>onMissingRemoteProxy\<close>,
  \<^verbatim>\<open>onMismatchingProxyAlias\<close> or \<^verbatim>\<open>onMismatchingProxyImplementation\<close> of the run is about
  that proxy.
\<close>

theorem call_multiple_proxy_implementations:
  "(\<forall>m \<in> {''onMismatchingVersion'', ''onMismatchingPackage'',
            ''onMismatchingProvider'', ''onMismatchingStdlib''}.
      \<exists>hs. calls (snd (call v L c)) = calls c @ hs \<and>
           length (filter (\<lambda>h. h_method h = m) hs) \<le> 1) \<and>
   (\<not> isLib (networkFile c) \<and> project L c = (Inr p, c0) \<and> touchesOwnAlias v \<and>
    event \<in> set (factory_events p) \<and>
    1 < length (matching (implementationsOf (directory_events p)) p (args_proxy event)) \<longrightarrow>
      proxyResolved v (implementationsOf (directory_events p)) p event (acc, c1) =
        (acc, visit v (multipleProxyImplementations
                         (length (matching (implementationsOf (directory_events p)) p
                            (args_proxy event)))
                         (getProxyImplementation p (args_proxy event))) c1) \<and>
      (\<exists>c' hs.
         call v L c = (Inr (), c') \<and> calls c' = calls c @ hs \<and>
         filter (\<lambda>h. h_method h = ''onMultipleProxyImplementations'' \<and>
                      about ''implementation'' (getProxyImplementation p (args_proxy event)) h) hs
           = replicate (length (filter (\<lambda>e. getProxyImplementation p (args_proxy e)
                                             = getProxyImplementation p (args_proxy event))
                                  (factory_events p)))
               (multipleProxyImplementations
                  (length (matching (implementationsOf (directory_events p)) p
                     (args_proxy event)))
                  (getProxyImplementation p (args_proxy event))) \<and>
         0 < length (filter (\<lambda>e. getProxyImplementation p (args_proxy e)
                                  = getProxyImplementation p (args_proxy event))
                       (factory_events p)) \<and>
         (\<forall>h \<in> set hs.
            about ''address'' (args_proxy event) h \<longrightarrow>
              \<not> aliasBasedCall h \<and> h_method h \<noteq> ''onUnregisteredProxyImplementation'')))"
proof (intro conjI impI)
  show "\<forall>m \<in> {''onMismatchingVersion'', ''onMismatchingPackage'',
            ''onMismatchingProvider'', ''onMismatchingStdlib''}.
      \<exists>hs. calls (snd (call v L c)) = calls c @ hs \<and>
           length (filter (\<lambda>h. h_method h = m) hs) \<le> 1"
  proof
    fix m
    assume "m \<in> {''onMismatchingVersion'', ''onMismatchingPackage'',
            ''onMismatchingProvider'', ''onMismatchingStdlib''}"
    from callsCountD [OF callsCount_call [OF this, of v L], of c]
    show "\<exists>hs. calls (snd (call v L c)) = calls c @ hs \<and>
           length (filter (\<lambda>h. h_method h = m) hs) \<le> 1" .
  qed
next
  let ?infos = "implementationsOf (directory_events p)"
  let ?a = "args_proxy event"
  let ?i = "getProxyImplementation p ?a"
  let ?m = "multipleProxyImplementations (length (matching ?infos p ?a)) ?i"
  assume "\<not> isLib (networkFile c) \<and> project L c = (Inr p, c0) \<and> touchesOwnAlias v \<and>
    event \<in> set (factory_events p) \<and> 1 < length (matching ?infos p ?a)"
  then have app: "\<not> isLib (networkFile c)" and pr: "project L c = (Inr p, c0)"
    and K: "touchesOwnAlias v" and ev: "event \<in> set (factory_events p)"
    and multi: "1 < length (matching ?infos p ?a)" by simp_all
  from multi show "proxyResolved v ?infos p event (acc, c1) = (acc, visit v ?m c1)"
    by (simp add: proxyResolved_eq resolvedEntry_def resolvedCalls_def Let_def)
  let ?Q = "\<lambda>h. h_method h = ''onMultipleProxyImplementations'' \<and> about ''implementation'' ?i h"
  let ?R = "\<lambda>e. getProxyImplementation p (args_proxy e) = ?i"
  let ?s = "readLedger GetProjectPackage c0"
  from project_Inr [OF pr] have c0: "project_cache c0 = Some p" "networkFile c0 = networkFile c"
      "calls c0 = calls c" by simp_all
  then have pc0: "project_cache ?s = Some p" by (simp add: readLedger_def)
  from checkApp_before_proxies [OF K pc0, of L]
  obtain c5 hp where c5: "checkApp v L ?s = checkProxies v L c5"
    and pc5: "project_cache c5 = Some p"
    and hp: "calls c5 = calls ?s @ hp" "\<forall>h \<in> set hp. scalarCall h \<or> implementationCall h"
    by blast
  from checkProxies_multiple [OF pc5 multi, of v L]
  obtain c6 hx where c6: "checkProxies v L c5 = (Inr (), c6)"
    and hx: "calls c6 = calls c5 @ hx"
      "filter ?Q hx = replicate (length (filter ?R (factory_events p))) ?m"
      "\<forall>h \<in> set hx. about ''address'' ?a h \<longrightarrow>
          \<not> aliasBasedCall h \<and> h_method h \<noteq> ''onUnregisteredProxyImplementation''"
    by blast
  from app c0 pr c5 c6 have run: "call v L c = (Inr (), visit v endChecking c6)"
    by (simp add: call_def andThen_def endChecking_def)
  let ?hs = "hp @ hx @ [endChecking]"
  have k: "calls (visit v endChecking c6) = calls c @ ?hs"
    using hp(1) hx(1) c0(3) by (simp add: visit_def readLedger_def)
  have pre: "\<forall>h \<in> set hp. \<not> ?Q h \<and> \<not> aliasBasedCall h \<and>
      h_method h \<noteq> ''onUnregisteredProxyImplementation''"
    using hp(2) by (auto simp: scalarCall_def implementationCall_def aliasBasedCall_def)
  have en: "\<not> ?Q endChecking \<and> \<not> aliasBasedCall endChecking \<and>
      h_method endChecking \<noteq> ''onUnregisteredProxyImplementation''"
    by (simp add: endChecking_def aliasBasedCall_def)
  from pre have "filter ?Q hp = []" by (intro filter_none) blast
  with en hx(2) have f: "filter ?Q ?hs = replicate (length (filter ?R (factory_events p))) ?m"
    by simp
  from ev have pos: "0 < length (filter ?R (factory_events p))"
    by (simp add: filter_empty_conv) blast
  have none: "\<forall>h \<in> set ?hs. about ''address'' ?a h \<longrightarrow>
      \<not> aliasBasedCall h \<and> h_method h \<noteq> ''onUnregisteredProxyImplementation''"
    using pre en hx(3) by auto
  from run k f pos none
  show "\<exists>c' hs.
         call v L c = (Inr (), c') \<and> calls c' = calls c @ hs \<and>
         filter ?Q hs = replicate (length (filter ?R (factory_events p))) ?m \<and>
         0 < length (filter ?R (factory_events p)) \<and>
         (\<forall>h \<in> set hs.
            about ''address'' ?a h \<longrightarrow>
              \<not> aliasBasedCall h \<and> h_method h \<noteq> ''onUnregisteredProxyImplementation'')"
    by blast
qed

theorem call_multiple_proxy_implementations_witness:
  "\<not> isLib (networkFile (newChecker networkFile2)) \<and>
   project ledger2 (newChecker networkFile2) =
     (Inr project2, (newChecker networkFile2)\<lparr>project_cache := Some project2,
        reads := [FetchAppProject (Str ''0xApp'')]\<rparr>) \<and>
   touchesOwnAlias reporting \<and>
   \<lparr>args_proxy = ''0xP''\<rparr> \<in> set (factory_events project2) \<and>
   1 < length (matching (implementationsOf (directory_events project2)) project2 ''0xP'') \<and>
   (\<exists>c'. call reporting ledger2 (newChecker networkFile2) = (Inr (), c') \<and>
      filter (\<lambda>h. h_method h = ''onMultipleProxyImplementations'' \<and>
                   about ''implementation'' ''0xA'' h) (calls c')
        = [multipleProxyImplementations 2 ''0xA'']) \<and>
   (\<exists>hs. calls (snd (call reporting ledger2 (newChecker networkFile2))) = hs \<and>
      length (filter (\<lambda>h. h_method h = ''onMismatchingProvider'') hs) \<le> 1)"
proof -
  let ?c = "newChecker networkFile2"
  let ?d = "(newChecker networkFile2)\<lparr>project_cache := Some project2,
        reads := [FetchAppProject (Str ''0xApp'')]\<rparr>"
  let ?e = "\<lparr>args_proxy = ''0xP''\<rparr>"
  have a: "\<not> isLib (networkFile ?c)" by (simp add: newChecker_def networkFile2_def)
  have b: "project ledger2 ?c = (Inr project2, ?d)"
    by (simp add: project_def newChecker_def networkFile2_def ledger2_def readLedger_def)
  have e: "?e \<in> set (factory_events project2)" by (simp add: project2_def)
  have m: "matching (implementationsOf (directory_events project2)) project2 (args_proxy ?e)
     = [\<lparr>i_alias = ''Token'', i_address = ''0xA''\<rparr>, \<lparr>i_alias = ''Coin'', i_address = ''0xA''\<rparr>]"
    by (simp add: matching_def implementationsOf_def filter_index_def project2_def
        ZERO_ADDRESS_def upt_rec)
  then have d: "1 < length (matching (implementationsOf (directory_events project2)) project2
      (args_proxy ?e))" by simp
  have n: "length (filter (\<lambda>e. getProxyImplementation project2 (args_proxy e)
      = getProxyImplementation project2 (args_proxy ?e)) (factory_events project2)) = 1"
    by (simp add: project2_def)
  have i: "getProxyImplementation project2 (args_proxy ?e) = ''0xA''" by (simp add: project2_def)
  have k: "calls ?c = []" by (simp add: newChecker_def)
  note t = call_multiple_proxy_implementations
    [where v = reporting and L = ledger2 and c = ?c and p = project2 and ?c0.0 = ?d
       and event = ?e and acc = "[]" and ?c1.0 = ?c]
  from t a b touchesOwnAlias_reporting e d
  obtain c' hs where r: "call reporting ledger2 ?c = (Inr (), c')" "calls c' = calls ?c @ hs"
      "filter (\<lambda>h. h_method h = ''onMultipleProxyImplementations'' \<and>
            about ''implementation'' (getProxyImplementation project2 (args_proxy ?e)) h) hs
        = replicate (length (filter (\<lambda>e. getProxyImplementation project2 (args_proxy e)
              = getProxyImplementation project2 (args_proxy ?e)) (factory_events project2)))
            (multipleProxyImplementations
               (length (matching (implementationsOf (directory_events project2)) project2
                  (args_proxy ?e)))
               (getProxyImplementation project2 (args_proxy ?e)))"
    by blast
  from r(2,3) k m n i have f: "filter (\<lambda>h. h_method h = ''onMultipleProxyImplementations'' \<and>
                   about ''implementation'' ''0xA'' h) (calls c')
        = [multipleProxyImplementations 2 ''0xA'']"
    by (simp add: numeral_2_eq_2)
  from t obtain hs' where s: "calls (snd (call reporting ledger2 ?c)) = calls ?c @ hs'"
      "length (filter (\<lambda>h. h_method h = ''onMismatchingProvider'') hs') \<le> 1" by blast
  from s k have "length (filter (\<lambda>h. h_method h = ''onMismatchingProvider'')
      (calls (snd (call reporting ledger2 ?c)))) \<le> 1" by simp
  with a b touchesOwnAlias_reporting e d r(1) f show ?thesis by simp
qed

end
